theory Spec2Isabelle
  imports Main
begin

section \<open>Values of the operating system and of the libraries\<close>

text \<open>
  The logging package of go-carbon (\<^verbatim>\<open>logging/logger.go\<close>) keeps one log file open for
  the process and re-acquires it on rotation. Everything it does is an effect on the
  operating system or on the logrus library, so the model threads an explicit \<open>world\<close>
  through every function and appends each effect to a trace, in program order.

  An \<open>error\<close> is the message of a Go \<^verbatim>\<open>error\<close> value; \<open>None\<close> stands for \<^verbatim>\<open>nil\<close>.
\<close>

type_synonym error = string

datatype open_flag = O_RDWR | O_CREATE | O_APPEND

datatype fsn_flag = FSN_CREATE | FSN_DELETE | FSN_RENAME

text \<open>The permission bits \<^verbatim>\<open>0644\<close> and \<^verbatim>\<open>0755\<close> of the source are octal literals.\<close>

definition mode_0644 :: nat where
  "mode_0644 = 6 * 64 + 4 * 8 + 4"

definition mode_0755 :: nat where
  "mode_0755 = 7 * 64 + 5 * 8 + 5"

text \<open>
  An \<^verbatim>\<open>*os.File\<close> is a reference into the list \<open>files\<close> of the world: the file objects
  ever opened, each with the name, flags and permission it was opened with, and whether
  \<^verbatim>\<open>Close\<close> was called on it.
\<close>

record os_File =
  f_name :: string
  f_flag :: "open_flag set"
  f_perm :: nat
  f_closed :: bool

text \<open>The \<^verbatim>\<open>io.Writer\<close> logrus writes to: \<^verbatim>\<open>os.Stderr\<close> or a file object.\<close>

datatype writer = Stderr | FileOut nat

datatype level = ErrorLevel | WarnLevel | InfoLevel

text \<open>
  The log lines of the two source files, one constructor per format string, with the
  values formatted into it:
  \<^item> \<open>NewWatcherFailed err\<close>: \<^verbatim>\<open>"fsnotify.NewWatcher(): %s"\<close>
  \<^item> \<open>WatchFailed filename err\<close>: \<^verbatim>\<open>"fsnotify.Watcher.Watch(%s): %s"\<close>
  \<^item> \<open>ReopenByFsnotify filename\<close>: \<^verbatim>\<open>"Reopen log %#v by fsnotify event"\<close>
  \<^item> \<open>ReopenFailed filename err\<close>: \<^verbatim>\<open>"Reopen log %#v failed: %s"\<close>
  \<^item> \<open>HupReopen filename\<close>: \<^verbatim>\<open>"HUP received, reopen log %#v"\<close>
  \<^item> \<open>HupReload\<close>: \<^verbatim>\<open>"HUP received. Reload config"\<close>
  \<^item> \<open>ReloadFailed err\<close>: \<^verbatim>\<open>"Config reload failed: %s"\<close>
  \<^item> \<open>ReloadOk\<close>: \<^verbatim>\<open>"Config successfully reloaded"\<close>
  \<^item> \<open>Line s\<close>: any other line written through the package's logging functions.
\<close>

datatype log_msg =
    NewWatcherFailed error
  | WatchFailed string error
  | ReopenByFsnotify string
  | ReopenFailed string error
  | HupReopen string
  | HupReload
  | ReloadFailed error
  | ReloadOk
  | Line string

text \<open>A \<^verbatim>\<open>*fsnotify.FileEvent\<close>: the path and the kind of change.\<close>

datatype file_event = FileEvent string fsn_flag

text \<open>
  An \<^verbatim>\<open>*fsnotify.Watcher\<close>: the paths it watches, each with its flags, and whether it was
  closed.
\<close>

record fs_watcher =
  w_watches :: "(string \<times> fsn_flag set) list"
  w_closed :: bool

text \<open>
  The goroutine \<open>fsWatch\<close> starts, with the variables its closure captures: the watcher,
  \<open>filename\<close>, the \<open>quit\<close> channel, and \<open>err\<close>, the variable assigned by
  \<^verbatim>\<open>watcher, err := fsnotify.NewWatcher()\<close>.
\<close>

record watch_task =
  t_watcher :: nat
  t_filename :: string
  t_quit :: nat
  t_err :: "error option"

text \<open>The effects, in the order the program performs them.\<close>

datatype event =
    EvLock
  | EvUnlock
  | EvRLock
  | EvRUnlock
  | EvOpenFile string "open_flag set" nat "error + nat"
  | EvStoreFd "nat option"
  | EvSetOutput writer
  | EvClose nat
  | EvLog level log_msg writer "error option"
  | EvNewWatcher "error + nat"
  | EvWatchFlags nat string "fsn_flag set" "error option"
  | EvWatcherClose nat
  | EvMakeChan nat
  | EvCloseChan nat
  | EvGo watch_task
  | EvRecv nat file_event
  | EvMkdirAll string nat "error option"
  | EvChmod string nat "error option"
  | EvChown string int int "error option"
  | EvReloadConfig "error option"

text \<open>
  The world: the file objects, the output of logrus' standard logger
  (\<^verbatim>\<open>logrus.SetOutput\<close>), the watchers, the \<^verbatim>\<open>chan bool\<close> channels made by \<open>Open\<close> (\<open>True\<close>
  once closed), the goroutines started by \<open>fsWatch\<close>, and the trace. The fields ending in
  \<open>_err\<close> are the environment: what the operating system answers to the next call of
  that kind (\<open>None\<close>: the call succeeds). They are not changed by the program.
\<close>

record world =
  files :: "os_File list"
  logrus_out :: writer
  watchers :: "fs_watcher list"
  chans :: "bool list"
  goroutines :: "watch_task list"
  trace :: "event list"
  open_err :: "string \<Rightarrow> error option"
  mkdir_err :: "string \<Rightarrow> error option"
  chmod_err :: "string \<Rightarrow> error option"
  chown_err :: "string \<Rightarrow> error option"
  newwatcher_err :: "error option"
  watch_err :: "string \<Rightarrow> error option"
  reload_err :: "error option"

definition emit :: "event \<Rightarrow> world \<Rightarrow> world" where
  "emit e w = w\<lparr>trace := trace w @ [e]\<rparr>"

text \<open>
  \<^verbatim>\<open>os.OpenFile(name, flag, perm)\<close>: \<^verbatim>\<open>(nil, err)\<close> when the operating system refuses,
  a new file object otherwise.
\<close>

definition os_OpenFile ::
  "string \<Rightarrow> open_flag set \<Rightarrow> nat \<Rightarrow> world \<Rightarrow> (error + nat) \<times> world" where
  "os_OpenFile name flag perm w =
     (case open_err w name of
        Some err \<Rightarrow> (Inl err, emit (EvOpenFile name flag perm (Inl err)) w)
      | None \<Rightarrow>
          (let h = length (files w) in
           (Inr h,
            emit (EvOpenFile name flag perm (Inr h))
              (w\<lparr>files := files w @
                 [\<lparr>f_name = name, f_flag = flag, f_perm = perm, f_closed = False\<rparr>]\<rparr>))))"

text \<open>\<^verbatim>\<open>f.Close()\<close>; the source ignores its result.\<close>

definition file_Close :: "nat \<Rightarrow> world \<Rightarrow> world" where
  "file_Close h w =
     emit (EvClose h)
       (if h < length (files w)
        then w\<lparr>files := (files w)[h := (files w ! h)\<lparr>f_closed := True\<rparr>]\<rparr>
        else w)"

definition logrus_SetOutput :: "writer \<Rightarrow> world \<Rightarrow> world" where
  "logrus_SetOutput out w = emit (EvSetOutput out) (w\<lparr>logrus_out := out\<rparr>)"

text \<open>
  A write succeeds on standard error and on a file object that is not closed; on a
  closed \<^verbatim>\<open>*os.File\<close> it fails.
\<close>

definition writable :: "writer \<Rightarrow> world \<Rightarrow> bool" where
  "writable out w =
     (case out of
        Stderr \<Rightarrow> True
      | FileOut h \<Rightarrow> h < length (files w) \<and> \<not> f_closed (files w ! h))"

text \<open>
  A log call at a level (\<^verbatim>\<open>Infof\<close>, \<^verbatim>\<open>Warningf\<close>, \<^verbatim>\<open>Errorf\<close>): logrus writes the line to
  its current output. The event records the writer the line went to and the result of
  the write. The level filter of logrus (\<^verbatim>\<open>SetLevel\<close>) is not modelled: the event
  stands for the call.
\<close>

definition logrus_log :: "level \<Rightarrow> log_msg \<Rightarrow> world \<Rightarrow> world" where
  "logrus_log lvl m w =
     emit (EvLog lvl m (logrus_out w)
             (if writable (logrus_out w) w then None else Some ''file already closed'')) w"

section \<open>The file logger\<close>

text \<open>
  \<^verbatim>\<open>type FileLogger struct\<close>: the embedded \<^verbatim>\<open>sync.RWMutex\<close> shows in the trace as
  \<open>EvLock\<close>, \<open>EvUnlock\<close>, \<open>EvRLock\<close> and \<open>EvRUnlock\<close>; the embedded \<^verbatim>\<open>*logrus.Logger\<close> is
  logrus' standard logger, whose output is \<open>logrus_out\<close>. The program has one
  \<open>FileLogger\<close>, \<^verbatim>\<open>std\<close>.
\<close>

record FileLogger =
  filename :: string
  fd :: "nat option"
  watcherDone :: "nat option"

definition NewFileLogger :: FileLogger where
  "NewFileLogger = \<lparr>filename = [], fd = None, watcherDone = None\<rparr>"

text \<open>
  Lines 122 to 128: the writer for a handle, \<^verbatim>\<open>os.Stderr\<close> when the handle is \<^verbatim>\<open>nil\<close>.
\<close>

definition writer_of :: "nat option \<Rightarrow> writer" where
  "writer_of h = (case h of Some n \<Rightarrow> FileOut n | None \<Rightarrow> Stderr)"

text \<open>
  Lines 119 to 135 of \<open>Reopen\<close>: store the new handle, point logrus at it (or at standard
  error when it is \<^verbatim>\<open>nil\<close>), close the old handle, return \<^verbatim>\<open>nil\<close>; the deferred
  \<^verbatim>\<open>l.Unlock()\<close> runs last.
\<close>

definition Reopen_swap ::
  "nat option \<Rightarrow> FileLogger \<Rightarrow> world \<Rightarrow> error option \<times> FileLogger \<times> world" where
  "Reopen_swap newFd l w =
     (let oldFd = fd l;
          l' = l\<lparr>fd := newFd\<rparr>;
          w1 = emit (EvStoreFd newFd) w;
          loggerOut = writer_of (fd l');
          w2 = logrus_SetOutput loggerOut w1;
          w3 = (case oldFd of Some h \<Rightarrow> file_Close h w2 | None \<Rightarrow> w2)
      in (None, l', emit EvUnlock w3))"

definition Reopen :: "FileLogger \<Rightarrow> world \<Rightarrow> error option \<times> FileLogger \<times> world" where
  "Reopen l w =
     (let w1 = emit EvLock w in
      if filename l \<noteq> [] then
        (case os_OpenFile (filename l) {O_RDWR, O_CREATE, O_APPEND} mode_0644 w1 of
           (Inl err, w2) \<Rightarrow> (Some err, l, emit EvUnlock w2)
         | (Inr newFd, w2) \<Rightarrow> Reopen_swap (Some newFd) l w2)
      else Reopen_swap None l w1)"

definition Filename :: "FileLogger \<Rightarrow> world \<Rightarrow> string \<times> world" where
  "Filename l w = (filename l, emit EvRUnlock (emit EvRLock w))"

section \<open>Open and the watcher\<close>

definition fsnotify_NewWatcher :: "world \<Rightarrow> (error + nat) \<times> world" where
  "fsnotify_NewWatcher w =
     (case newwatcher_err w of
        Some err \<Rightarrow> (Inl err, emit (EvNewWatcher (Inl err)) w)
      | None \<Rightarrow>
          (let n = length (watchers w) in
           (Inr n,
            emit (EvNewWatcher (Inr n))
              (w\<lparr>watchers := watchers w @ [\<lparr>w_watches = [], w_closed = False\<rparr>]\<rparr>))))"

text \<open>
  \<^verbatim>\<open>watcher.WatchFlags(path, flags)\<close>: registers the watch (replacing one the watcher
  already has on the path) unless the operating system refuses.
\<close>

definition WatchFlags ::
  "nat \<Rightarrow> string \<Rightarrow> fsn_flag set \<Rightarrow> world \<Rightarrow> error option \<times> world" where
  "WatchFlags wt path flags w =
     (case watch_err w path of
        Some err \<Rightarrow> (Some err, emit (EvWatchFlags wt path flags (Some err)) w)
      | None \<Rightarrow>
          (None,
           emit (EvWatchFlags wt path flags None)
             (if wt < length (watchers w)
              then w\<lparr>watchers := (watchers w)[wt := (watchers w ! wt)
                     \<lparr>w_watches :=
                        (path, flags) # filter (\<lambda>pf. fst pf \<noteq> path) (w_watches (watchers w ! wt))\<rparr>]\<rparr>
              else w)))"

text \<open>\<^verbatim>\<open>watcher.Close()\<close> releases every watch of the watcher.\<close>

definition watcher_Close :: "nat \<Rightarrow> world \<Rightarrow> world" where
  "watcher_Close wt w =
     emit (EvWatcherClose wt)
       (if wt < length (watchers w)
        then w\<lparr>watchers := (watchers w)[wt := \<lparr>w_watches = [], w_closed = True\<rparr>]\<rparr>
        else w)"

definition make_chan :: "world \<Rightarrow> nat \<times> world" where
  "make_chan w =
     (let c = length (chans w) in (c, emit (EvMakeChan c) (w\<lparr>chans := chans w @ [False]\<rparr>)))"

text \<open>
  \<^verbatim>\<open>close(c)\<close>. \<open>Open\<close> closes only the channel it made in its previous call and replaces
  it at once, so it never closes a channel twice.
\<close>

definition close_chan :: "nat \<Rightarrow> world \<Rightarrow> world" where
  "close_chan c w = emit (EvCloseChan c) (w\<lparr>chans := (chans w)[c := True]\<rparr>)"

definition chan_closed :: "nat \<Rightarrow> world \<Rightarrow> bool" where
  "chan_closed c w = (c < length (chans w) \<and> chans w ! c)"

definition go_task :: "watch_task \<Rightarrow> world \<Rightarrow> world" where
  "go_task t w = emit (EvGo t) (w\<lparr>goroutines := goroutines w @ [t]\<rparr>)"

text \<open>
  The closure \<open>subscribe\<close> of \<open>fsWatch\<close> (lines 72 to 76). Its \<^verbatim>\<open>err\<close> is declared by
  \<^verbatim>\<open>if err := ...\<close> and is local to the \<^verbatim>\<open>if\<close>: it is not the \<^verbatim>\<open>err\<close> of line 62.
\<close>

definition subscribe :: "nat \<Rightarrow> string \<Rightarrow> world \<Rightarrow> world" where
  "subscribe wt name w =
     (case WatchFlags wt name {FSN_CREATE, FSN_DELETE, FSN_RENAME} w of
        (Some err, w1) \<Rightarrow> logrus_log WarnLevel (WatchFailed name err) w1
      | (None, w1) \<Rightarrow> w1)"

text \<open>
  \<open>fsWatch\<close> up to the \<^verbatim>\<open>go\<close> statement. The watcher is made before the test for the
  empty filename. The goroutine is started with \<^verbatim>\<open>err == nil\<close>: the function has
  returned otherwise.
\<close>

definition fsWatch :: "string \<Rightarrow> nat \<Rightarrow> world \<Rightarrow> world" where
  "fsWatch name quit w =
     (case fsnotify_NewWatcher w of
        (Inl err, w1) \<Rightarrow> logrus_log WarnLevel (NewWatcherFailed err) w1
      | (Inr wt, w1) \<Rightarrow>
          if name = [] then w1
          else go_task \<lparr>t_watcher = wt, t_filename = name, t_quit = quit, t_err = None\<rparr>
                 (subscribe wt name w1))"

definition Open :: "string \<Rightarrow> FileLogger \<Rightarrow> world \<Rightarrow> error option \<times> FileLogger \<times> world" where
  "Open name l w =
     (let l1 = l\<lparr>filename := name\<rparr>;
          w1 = emit EvUnlock (emit EvLock w);
          (reopenErr, l2, w2) = Reopen l1 w1;
          w3 = (case watcherDone l2 of Some c \<Rightarrow> close_chan c w2 | None \<Rightarrow> w2);
          (c', w4) = make_chan w3;
          l3 = l2\<lparr>watcherDone := Some c'\<rparr>;
          w5 = fsWatch (filename l3) c' w4
      in (reopenErr, l3, w5))"

text \<open>
  The body of \<^verbatim>\<open>case <-watcher.Event:\<close> (lines 86 to 92). The result of \<^verbatim>\<open>l.Reopen()\<close> is
  dropped; the \<^verbatim>\<open>err\<close> tested on line 90 is the captured variable of line 62. The
  logger \<open>l\<close> is \<^verbatim>\<open>std\<close>, the one the program opens.
\<close>

definition on_event :: "watch_task \<Rightarrow> FileLogger \<Rightarrow> world \<Rightarrow> FileLogger \<times> world" where
  "on_event t l w =
     (let (dropped, l1, w1) = Reopen l w;
          w2 = subscribe (t_watcher t) (t_filename t) w1;
          (name, w3) = Filename l1 w2;
          w4 = logrus_log InfoLevel (ReopenByFsnotify name) w3
      in case t_err t of
           None \<Rightarrow> (l1, w4)
         | Some err \<Rightarrow>
             (let (name', w5) = Filename l1 w4
              in (l1, logrus_log ErrorLevel (ReopenFailed name' err) w5)))"

text \<open>
  The goroutine's \<^verbatim>\<open>for { select { ... } }\<close>, run on the cases the \<^verbatim>\<open>select\<close> takes, in
  order: an event from the watcher, or \<open>quit\<close>, on which the goroutine returns and the
  deferred \<^verbatim>\<open>watcher.Close()\<close> runs. With no case left the goroutine is blocked in
  \<^verbatim>\<open>select\<close>.
\<close>

datatype select_case = RecvEvent file_event | RecvQuit

fun watch_loop ::
  "watch_task \<Rightarrow> select_case list \<Rightarrow> FileLogger \<Rightarrow> world \<Rightarrow> FileLogger \<times> world" where
  "watch_loop t [] l w = (l, w)"
| "watch_loop t (RecvQuit # rest) l w = (l, watcher_Close (t_watcher t) w)"
| "watch_loop t (RecvEvent ev # rest) l w =
     (let (l1, w1) = on_event t l (emit (EvRecv (t_watcher t) ev) w)
      in watch_loop t rest l1 w1)"

section \<open>PrepareFile\<close>

text \<open>The fields of \<^verbatim>\<open>user.User\<close> that \<open>PrepareFile\<close> reads.\<close>

record user =
  Uid :: string
  Gid :: string

definition os_MkdirAll :: "string \<Rightarrow> nat \<Rightarrow> world \<Rightarrow> error option \<times> world" where
  "os_MkdirAll path perm w = (mkdir_err w path, emit (EvMkdirAll path perm (mkdir_err w path)) w)"

definition os_Chmod :: "string \<Rightarrow> nat \<Rightarrow> world \<Rightarrow> error option \<times> world" where
  "os_Chmod name perm w = (chmod_err w name, emit (EvChmod name perm (chmod_err w name)) w)"

definition os_Chown :: "string \<Rightarrow> int \<Rightarrow> int \<Rightarrow> world \<Rightarrow> error option \<times> world" where
  "os_Chown name uid gid w = (chown_err w name, emit (EvChown name uid gid (chown_err w name)) w)"

text \<open>
  \<open>PrepareFile\<close>. The library functions \<^verbatim>\<open>filepath.Dir\<close> and \<^verbatim>\<open>strconv.ParseInt(s, 10, 0)\<close>
  are parameters, \<open>Dir\<close> and \<open>ParseInt\<close>. \<^verbatim>\<open>os.OpenFile\<close> returns a file or an error, never
  both, so \<^verbatim>\<open>fd.Close()\<close> runs exactly when the open succeeded.
\<close>

definition PrepareFile ::
  "(string \<Rightarrow> string) \<Rightarrow> (string \<Rightarrow> error + int) \<Rightarrow> string \<Rightarrow> user option \<Rightarrow> world
     \<Rightarrow> error option \<times> world" where
  "PrepareFile Dir ParseInt name owner w =
     (if name = [] then (None, w)
      else
        case os_MkdirAll (Dir name) mode_0755 w of
          (Some err, w1) \<Rightarrow> (Some err, w1)
        | (None, w1) \<Rightarrow>
            (case os_OpenFile name {O_RDWR, O_CREATE, O_APPEND} mode_0644 w1 of
               (Inl err, w2) \<Rightarrow> (Some err, w2)
             | (Inr h, w2) \<Rightarrow>
                 (case os_Chmod name mode_0644 (file_Close h w2) of
                    (Some err, w3) \<Rightarrow> (Some err, w3)
                  | (None, w3) \<Rightarrow>
                      (case owner of
                         None \<Rightarrow> (None, w3)
                       | Some u \<Rightarrow>
                           (case ParseInt (Uid u) of
                              Inl err \<Rightarrow> (Some err, w3)
                            | Inr uid \<Rightarrow>
                                (case ParseInt (Gid u) of
                                   Inl err \<Rightarrow> (Some err, w3)
                                 | Inr gid \<Rightarrow> os_Chown name uid gid w3))))))"

section \<open>The hangup handlers of the main package\<close>

text \<open>
  The body of \<^verbatim>\<open>case <-signalChan:\<close> in \<^verbatim>\<open>init\<close> (lines 49 to 54), the goroutine that
  reopens the log on \<^verbatim>\<open>SIGHUP\<close>.
\<close>

definition hup_reopen :: "FileLogger \<Rightarrow> world \<Rightarrow> FileLogger \<times> world" where
  "hup_reopen l w =
     (let (err, l1, w1) = Reopen l w;
          (name, w2) = Filename l1 w1;
          w3 = logrus_log InfoLevel (HupReopen name) w2
      in case err of
           None \<Rightarrow> (l1, w3)
         | Some e \<Rightarrow>
             (let (name', w4) = Filename l1 w3
              in (l1, logrus_log ErrorLevel (ReopenFailed name' e) w4)))"

text \<open>
  \<^verbatim>\<open>app.ReloadConfig()\<close> belongs to the managed application; its result is the
  environment's \<open>reload_err\<close>.
\<close>

definition app_ReloadConfig :: "world \<Rightarrow> error option \<times> world" where
  "app_ReloadConfig w = (reload_err w, emit (EvReloadConfig (reload_err w)) w)"

text \<open>
  The body of the loop of the second \<^verbatim>\<open>SIGHUP\<close> goroutine, in \<^verbatim>\<open>main\<close> (lines 189 to
  194).
\<close>

definition hup_reload :: "world \<Rightarrow> world" where
  "hup_reload w =
     (let w1 = logrus_log InfoLevel HupReload w;
          (err, w2) = app_ReloadConfig w1
      in case err of
           Some e \<Rightarrow> logrus_log ErrorLevel (ReloadFailed e) w2
         | None \<Rightarrow> logrus_log InfoLevel ReloadOk w2)"

text \<open>
  One \<^verbatim>\<open>SIGHUP\<close> while both goroutines wait on their channels: each channel receives the
  signal and each goroutine runs its body once. \<open>reopen_first\<close> is the order in which
  the scheduler runs the two bodies.
\<close>

definition on_SIGHUP :: "bool \<Rightarrow> FileLogger \<Rightarrow> world \<Rightarrow> FileLogger \<times> world" where
  "on_SIGHUP reopen_first l w =
     (if reopen_first
      then (let (l1, w1) = hup_reopen l w in (l1, hup_reload w1))
      else hup_reopen l (hup_reload w))"

section \<open>The process at start\<close>

text \<open>
  The world when the process starts: nothing opened, logrus writing to standard error
  (its default), and an environment in which every call succeeds.
\<close>

definition boot_world :: world where
  "boot_world =
     \<lparr>files = [], logrus_out = Stderr, watchers = [], chans = [], goroutines = [],
      trace = [],
      open_err = (\<lambda>p. None), mkdir_err = (\<lambda>p. None), chmod_err = (\<lambda>p. None),
      chown_err = (\<lambda>p. None), newwatcher_err = None, watch_err = (\<lambda>p. None),
      reload_err = None\<rparr>"

section \<open>Reopen, statement by statement, among other goroutines\<close>

text \<open>
  Where a goroutine stands in a call of \<open>Reopen\<close>: before \<^verbatim>\<open>l.Lock()\<close> (\<open>PcCall\<close>), holding
  the lock before the open (\<open>PcLocked\<close>), with \<open>newFd\<close> assigned (\<open>PcOpened newFd\<close>), after
  \<^verbatim>\<open>l.fd = newFd\<close> (\<open>PcStored oldFd\<close>), after \<^verbatim>\<open>logrus.SetOutput\<close> (\<open>PcOutput oldFd\<close>), at
  the \<^verbatim>\<open>return\<close> with the deferred unlock pending (\<open>PcReturn result\<close>), and returned
  (\<open>PcDone result\<close>). \<open>PcIdle\<close>: the goroutine has not called \<open>Reopen\<close>.
\<close>

datatype reopen_pc =
    PcIdle
  | PcCall
  | PcLocked
  | PcOpened "nat option"
  | PcStored "nat option"
  | PcOutput "nat option"
  | PcReturn "error option"
  | PcDone "error option"

fun reopen_step :: "reopen_pc \<Rightarrow> FileLogger \<Rightarrow> world \<Rightarrow> reopen_pc \<times> FileLogger \<times> world" where
  "reopen_step PcIdle l w = (PcIdle, l, w)"
| "reopen_step PcCall l w = (PcLocked, l, emit EvLock w)"
| "reopen_step PcLocked l w =
     (if filename l \<noteq> [] then
        (case os_OpenFile (filename l) {O_RDWR, O_CREATE, O_APPEND} mode_0644 w of
           (Inl err, w1) \<Rightarrow> (PcReturn (Some err), l, w1)
         | (Inr newFd, w1) \<Rightarrow> (PcOpened (Some newFd), l, w1))
      else (PcOpened None, l, w))"
| "reopen_step (PcOpened newFd) l w = (PcStored (fd l), l\<lparr>fd := newFd\<rparr>, emit (EvStoreFd newFd) w)"
| "reopen_step (PcStored oldFd) l w = (PcOutput oldFd, l, logrus_SetOutput (writer_of (fd l)) w)"
| "reopen_step (PcOutput oldFd) l w =
     (PcReturn None, l, (case oldFd of Some h \<Rightarrow> file_Close h w | None \<Rightarrow> w))"
| "reopen_step (PcReturn r) l w = (PcDone r, l, emit EvUnlock w)"
| "reopen_step (PcDone r) l w = (PcDone r, l, w)"

fun reopen_steps ::
  "nat \<Rightarrow> reopen_pc \<Rightarrow> FileLogger \<Rightarrow> world \<Rightarrow> reopen_pc \<times> FileLogger \<times> world" where
  "reopen_steps 0 pc l w = (pc, l, w)"
| "reopen_steps (Suc n) pc l w =
     (let (pc1, l1, w1) = reopen_step pc l w in reopen_steps n pc1 l1 w1)"

text \<open>
  The logger and the world shared by goroutines \<open>0, 1, 2, ...\<close>, the goroutine holding
  the logger's lock (\<open>mu\<close>), and where each goroutine stands.
\<close>

record system =
  the_logger :: FileLogger
  the_world :: world
  mu :: "nat option"
  pcs :: "nat \<Rightarrow> reopen_pc"

text \<open>
  What can happen next:
  \<^item> \<open>Call i\<close>: goroutine \<open>i\<close>, not in a call, calls \<open>Reopen\<close>;
  \<^item> \<open>Step i\<close>: goroutine \<open>i\<close> executes its next statement; at \<^verbatim>\<open>l.Lock()\<close> it waits
    while another goroutine holds the lock;
  \<^item> \<open>SetFilename name\<close>: the first critical section of \<open>Open\<close> (lines 46 to 48), which
    waits for the lock too;
  \<^item> \<open>Write lvl m\<close>: some goroutine logs a line. logrus writes under the mutex of its
    logger, the one \<^verbatim>\<open>logrus.SetOutput\<close> takes, so a write is one step;
  \<^item> \<open>FsChange f\<close>: the file system changes under the process: from now on
    \<^verbatim>\<open>os.OpenFile\<close> answers as \<open>f\<close> says.
\<close>

datatype action =
    Call nat
  | Step nat
  | SetFilename string
  | Write level log_msg
  | FsChange "string \<Rightarrow> error option"

fun exec1 :: "action \<Rightarrow> system \<Rightarrow> system" where
  "exec1 (Call i) s =
     (case pcs s i of
        PcIdle \<Rightarrow> s\<lparr>pcs := (pcs s)(i := PcCall)\<rparr>
      | PcDone r \<Rightarrow> s\<lparr>pcs := (pcs s)(i := PcCall)\<rparr>
      | _ \<Rightarrow> s)"
| "exec1 (Step i) s =
     (if pcs s i = PcCall \<and> mu s \<noteq> None then s
      else
        (let (pc', l', w') = reopen_step (pcs s i) (the_logger s) (the_world s)
         in s\<lparr>the_logger := l', the_world := w',
              mu := (case pcs s i of PcCall \<Rightarrow> Some i | PcReturn r \<Rightarrow> None | _ \<Rightarrow> mu s),
              pcs := (pcs s)(i := pc')\<rparr>))"
| "exec1 (SetFilename name) s =
     (if mu s \<noteq> None then s
      else s\<lparr>the_logger := (the_logger s)\<lparr>filename := name\<rparr>,
             the_world := emit EvUnlock (emit EvLock (the_world s))\<rparr>)"
| "exec1 (Write lvl m) s = s\<lparr>the_world := logrus_log lvl m (the_world s)\<rparr>"
| "exec1 (FsChange f) s = s\<lparr>the_world := (the_world s)\<lparr>open_err := f\<rparr>\<rparr>"

definition exec :: "action list \<Rightarrow> system \<Rightarrow> system" where
  "exec acts s = fold exec1 acts s"

definition start :: "FileLogger \<Rightarrow> world \<Rightarrow> system" where
  "start l w = \<lparr>the_logger = l, the_world = w, mu = None, pcs = (\<lambda>i. PcIdle)\<rparr>"

section \<open>Properties of states and traces\<close>

text \<open>
  The handle of the logger is an existing file object (\<open>fd_valid\<close>); logrus writes to the
  logger's handle and that handle is open (\<open>consistent\<close>).
\<close>

definition fd_valid :: "FileLogger \<Rightarrow> world \<Rightarrow> bool" where
  "fd_valid l w = (case fd l of None \<Rightarrow> True | Some h \<Rightarrow> h < length (files w))"

definition consistent :: "FileLogger \<Rightarrow> world \<Rightarrow> bool" where
  "consistent l w = (logrus_out w = writer_of (fd l) \<and> writable (writer_of (fd l)) w)"

text \<open>
  The invariant the specification gives for the filename and the handle: no handle when
  the filename is empty, and otherwise a handle that is an open file object opened in
  append mode at the current filename.
\<close>

definition handle_matches :: "FileLogger \<Rightarrow> world \<Rightarrow> bool" where
  "handle_matches l w =
     (case fd l of
        None \<Rightarrow> filename l = []
      | Some h \<Rightarrow>
          filename l \<noteq> [] \<and> h < length (files w) \<and> f_name (files w ! h) = filename l \<and>
          O_APPEND \<in> f_flag (files w ! h) \<and> \<not> f_closed (files w ! h))"

text \<open>Any lines logged one after the other.\<close>

fun log_all :: "(level \<times> log_msg) list \<Rightarrow> world \<Rightarrow> world" where
  "log_all [] w = w"
| "log_all ((lvl, m) # rest) w = log_all rest (logrus_log lvl m w)"

text \<open>The lines logged by a trace, with their levels, and the writes of a trace that failed.\<close>

fun log_of :: "event \<Rightarrow> (level \<times> log_msg) list" where
  "log_of (EvLog lvl m out r) = [(lvl, m)]"
| "log_of e = []"

definition logged :: "event list \<Rightarrow> (level \<times> log_msg) list" where
  "logged tr = concat (map log_of tr)"

fun is_failed_write :: "event \<Rightarrow> bool" where
  "is_failed_write (EvLog lvl m out r) = (r \<noteq> None)"
| "is_failed_write e = False"

definition failed_writes :: "event list \<Rightarrow> event list" where
  "failed_writes tr = filter is_failed_write tr"

text \<open>
  A trace of the watcher goroutine or of the hangup goroutines, reduced to the steps
  whose order matters: an event received, \<open>Reopen\<close> entered (its \<^verbatim>\<open>l.Lock()\<close>), \<open>Reopen\<close>
  left (its deferred \<^verbatim>\<open>l.Unlock()\<close>), the call of \<^verbatim>\<open>WatchFlags\<close> on a path, and the call
  of \<^verbatim>\<open>app.ReloadConfig()\<close> with its result.
\<close>

datatype phase =
    Received file_event
  | ReopenEntered
  | ReopenLeft
  | Subscribes string
  | Reloads "error option"

fun phase_of :: "event \<Rightarrow> phase list" where
  "phase_of (EvRecv wt ev) = [Received ev]"
| "phase_of EvLock = [ReopenEntered]"
| "phase_of EvUnlock = [ReopenLeft]"
| "phase_of (EvWatchFlags wt path flags r) = [Subscribes path]"
| "phase_of (EvReloadConfig r) = [Reloads r]"
| "phase_of e = []"

definition phases :: "event list \<Rightarrow> phase list" where
  "phases tr = concat (map phase_of tr)"


text \<open>
  The watcher goroutines that were not told to quit: their \<open>quit\<close> channel is not closed.
\<close>

definition live_tasks :: "world \<Rightarrow> watch_task list" where
  "live_tasks w = filter (\<lambda>t. \<not> chan_closed (t_quit t) w) (goroutines w)"

text \<open>
  The logger owns at most one subscription: every channel in use exists, and a watcher
  goroutine whose \<open>quit\<close> channel is not the logger's current \<open>watcherDone\<close> was told to
  quit.
\<close>

definition one_subscription :: "FileLogger \<Rightarrow> world \<Rightarrow> bool" where
  "one_subscription l w =
     ((case watcherDone l of None \<Rightarrow> True | Some c \<Rightarrow> c < length (chans w)) \<and>
      list_all (\<lambda>t. t_quit t < length (chans w) \<and>
                    (Some (t_quit t) = watcherDone l \<or> chans w ! t_quit t)) (goroutines w))"

section \<open>The invariant of Reopen among other goroutines\<close>

text \<open>
  A goroutine is in the critical section of \<open>Reopen\<close> from its \<^verbatim>\<open>l.Lock()\<close> to its deferred
  \<^verbatim>\<open>l.Unlock()\<close>. \<open>pc_inv\<close> is what holds of the logger and the world when the goroutine
  holding the lock stands at a statement: before the store of the new handle, logrus
  writes to the logger's handle, which is open, and the new handle is open and another
  one; between the store and \<^verbatim>\<open>logrus.SetOutput\<close>, logrus still writes to the old handle,
  and both handles are open; between \<^verbatim>\<open>logrus.SetOutput\<close> and the close, logrus writes to
  the new handle, and the old one is another. \<open>sys_inv\<close>: only the goroutine holding the
  lock is in the critical section, and \<open>pc_inv\<close> holds for it; with the lock free, the
  state is \<open>consistent\<close>.
\<close>

fun critical :: "reopen_pc \<Rightarrow> bool" where
  "critical PcIdle = False"
| "critical PcCall = False"
| "critical (PcDone r) = False"
| "critical pc = True"

definition handle_open :: "nat option \<Rightarrow> world \<Rightarrow> bool" where
  "handle_open h w = writable (writer_of h) w"

fun pc_inv :: "reopen_pc \<Rightarrow> FileLogger \<Rightarrow> world \<Rightarrow> bool" where
  "pc_inv (PcOpened newFd) l w =
     (consistent l w \<and> handle_open newFd w \<and> (newFd = None \<or> newFd \<noteq> fd l))"
| "pc_inv (PcStored oldFd) l w =
     (logrus_out w = writer_of oldFd \<and> handle_open oldFd w \<and> handle_open (fd l) w \<and>
      (oldFd = None \<or> oldFd \<noteq> fd l))"
| "pc_inv (PcOutput oldFd) l w = (consistent l w \<and> (oldFd = None \<or> oldFd \<noteq> fd l))"
| "pc_inv pc l w = consistent l w"

definition sys_inv :: "system \<Rightarrow> bool" where
  "sys_inv s =
     ((\<forall>i. critical (pcs s i) \<longrightarrow> mu s = Some i) \<and>
      (case mu s of
         None \<Rightarrow> consistent (the_logger s) (the_world s)
       | Some i \<Rightarrow> critical (pcs s i) \<and> pc_inv (pcs s i) (the_logger s) (the_world s)))"

text \<open>
  The same for the filename and the handle. \<open>pc_hm\<close>: at every statement of the goroutine
  holding the lock the handle matches the filename, and before the store the new handle
  matches it too. \<open>is_rename\<close> tells the action that changes the filename.
\<close>

fun is_rename :: "action \<Rightarrow> bool" where
  "is_rename (SetFilename name) = True"
| "is_rename a = False"

fun pc_hm :: "reopen_pc \<Rightarrow> FileLogger \<Rightarrow> world \<Rightarrow> bool" where
  "pc_hm (PcOpened newFd) l w = (handle_matches l w \<and> handle_matches (l\<lparr>fd := newFd\<rparr>) w)"
| "pc_hm pc l w = handle_matches l w"

definition hm_inv :: "system \<Rightarrow> bool" where
  "hm_inv s =
     (case mu s of
        None \<Rightarrow> handle_matches (the_logger s) (the_world s)
      | Some i \<Rightarrow> pc_hm (pcs s i) (the_logger s) (the_world s))"

section \<open>Basic facts\<close>

lemmas prim_defs = emit_def os_OpenFile_def file_Close_def logrus_SetOutput_def logrus_log_def
  fsnotify_NewWatcher_def WatchFlags_def watcher_Close_def make_chan_def close_chan_def
  go_task_def subscribe_def Filename_def writer_of_def

lemma emit_fields [simp]:
  "files (emit e w) = files w" "logrus_out (emit e w) = logrus_out w"
  "watchers (emit e w) = watchers w" "chans (emit e w) = chans w"
  "goroutines (emit e w) = goroutines w" "open_err (emit e w) = open_err w"
  "newwatcher_err (emit e w) = newwatcher_err w" "watch_err (emit e w) = watch_err w"
  "reload_err (emit e w) = reload_err w" "trace (emit e w) = trace w @ [e]"
  by (simp_all add: emit_def)

text \<open>What \<open>Reopen\<close> and \<open>fsWatch\<close> leave alone.\<close>

lemma Reopen_frame:
  "filename (fst (snd (Reopen l w))) = filename l \<and>
   watcherDone (fst (snd (Reopen l w))) = watcherDone l \<and>
   chans (snd (snd (Reopen l w))) = chans w \<and>
   goroutines (snd (snd (Reopen l w))) = goroutines w \<and>
   watchers (snd (snd (Reopen l w))) = watchers w \<and>
   open_err (snd (snd (Reopen l w))) = open_err w \<and>
   newwatcher_err (snd (snd (Reopen l w))) = newwatcher_err w \<and>
   watch_err (snd (snd (Reopen l w))) = watch_err w \<and>
   reload_err (snd (snd (Reopen l w))) = reload_err w"
  by (simp add: Reopen_def Reopen_swap_def prim_defs Let_def
      split: option.splits sum.splits prod.splits)

lemma fsWatch_frame:
  "files (fsWatch name c w) = files w \<and> logrus_out (fsWatch name c w) = logrus_out w \<and>
   chans (fsWatch name c w) = chans w \<and> open_err (fsWatch name c w) = open_err w"
  by (simp add: fsWatch_def prim_defs Let_def split: option.splits sum.splits prod.splits)

text \<open>\<open>Open\<close> in terms of its call of \<open>Reopen\<close>.\<close>

lemma Open_fst:
  "fst (Open name l w) = fst (Reopen (l\<lparr>filename := name\<rparr>) (emit EvUnlock (emit EvLock w)))"
  by (simp add: Open_def Let_def case_prod_beta)

lemma Open_logger:
  "fst (snd (Open name l w)) =
     (fst (snd (Reopen (l\<lparr>filename := name\<rparr>) (emit EvUnlock (emit EvLock w)))))
       \<lparr>watcherDone := Some (length (chans w))\<rparr>"
  by (simp add: Open_def Let_def case_prod_beta make_chan_def close_chan_def Reopen_frame
      split: option.splits)

lemma Open_files:
  "files (snd (snd (Open name l w))) =
     files (snd (snd (Reopen (l\<lparr>filename := name\<rparr>) (emit EvUnlock (emit EvLock w))))) \<and>
   logrus_out (snd (snd (Open name l w))) =
     logrus_out (snd (snd (Reopen (l\<lparr>filename := name\<rparr>) (emit EvUnlock (emit EvLock w)))))"
  by (simp add: Open_def Let_def case_prod_beta fsWatch_frame make_chan_def close_chan_def
      split: option.splits)

text \<open>A \<open>Reopen\<close> that returns \<^verbatim>\<open>nil\<close> leaves a handle that matches the filename.\<close>

lemma Reopen_establishes:
  "fd_valid l w \<Longrightarrow> fst (Reopen l w) = None \<Longrightarrow>
     handle_matches (fst (snd (Reopen l w))) (snd (snd (Reopen l w)))"
  by (auto simp add: Reopen_def Reopen_swap_def prim_defs Let_def fd_valid_def
      handle_matches_def nth_append split: option.splits sum.splits prod.splits if_splits)

lemma Open_establishes:
  assumes "fd_valid l w" and "fst (Open name l w) = None"
  shows "handle_matches (fst (snd (Open name l w))) (snd (snd (Open name l w)))"
proof -
  let ?l = "l\<lparr>filename := name\<rparr>" and ?w = "emit EvUnlock (emit EvLock w)"
  have "fd_valid ?l ?w"
    using assms(1) by (simp add: fd_valid_def split: option.splits)
  moreover have "fst (Reopen ?l ?w) = None"
    using assms(2) by (simp add: Open_fst)
  ultimately have "handle_matches (fst (snd (Reopen ?l ?w))) (snd (snd (Reopen ?l ?w)))"
    by (rule Reopen_establishes)
  then show ?thesis
    by (simp add: handle_matches_def Open_logger Open_files Reopen_frame split: option.splits)
qed

text \<open>The projections of a trace, and logging.\<close>

lemma phases_simps [simp]:
  "phases [] = []" "phases (e # tr) = phase_of e @ phases tr"
  "phases (a @ b) = phases a @ phases b"
  by (simp_all add: phases_def)

lemma logged_simps [simp]:
  "logged [] = []" "logged (e # tr) = log_of e @ logged tr"
  "logged (a @ b) = logged a @ logged b"
  by (simp_all add: logged_def)

lemma logrus_log_fields [simp]:
  "files (logrus_log lvl m w) = files w" "logrus_out (logrus_log lvl m w) = logrus_out w"
  "watchers (logrus_log lvl m w) = watchers w" "chans (logrus_log lvl m w) = chans w"
  "goroutines (logrus_log lvl m w) = goroutines w" "open_err (logrus_log lvl m w) = open_err w"
  "newwatcher_err (logrus_log lvl m w) = newwatcher_err w"
  "watch_err (logrus_log lvl m w) = watch_err w" "reload_err (logrus_log lvl m w) = reload_err w"
  by (simp_all add: logrus_log_def)

lemma logrus_log_phases [simp]:
  "phases (trace (logrus_log lvl m w)) = phases (trace w)"
  by (simp add: logrus_log_def)

lemma logrus_log_logged [simp]:
  "logged (trace (logrus_log lvl m w)) = logged (trace w) @ [(lvl, m)]"
  by (simp add: logrus_log_def)

text \<open>More on what \<open>Reopen\<close>, \<open>Open\<close> and \<open>fsWatch\<close> return.\<close>

lemma Open_world:
  "snd (snd (Open name l w)) =
     fsWatch name (length (chans w))
       (snd (make_chan
          (case watcherDone l of
             Some c \<Rightarrow> close_chan c (snd (snd (Reopen (l\<lparr>filename := name\<rparr>) (emit EvUnlock (emit EvLock w)))))
           | None \<Rightarrow> snd (snd (Reopen (l\<lparr>filename := name\<rparr>) (emit EvUnlock (emit EvLock w)))))))"
  by (simp add: Open_def Let_def case_prod_beta make_chan_def close_chan_def Reopen_frame
      split: option.splits)

lemma Reopen_result:
  "fst (Reopen l w) = (if filename l = [] then None else open_err w (filename l))"
  by (simp add: Reopen_def Reopen_swap_def prim_defs Let_def split: option.splits)

lemma Reopen_logger:
  "fst (snd (Reopen l w)) =
     (if filename l = [] then l\<lparr>fd := None\<rparr>
      else case open_err w (filename l) of
             Some e \<Rightarrow> l
           | None \<Rightarrow> l\<lparr>fd := Some (length (files w))\<rparr>)"
  by (simp add: Reopen_def Reopen_swap_def prim_defs Let_def split: option.splits)

lemma Reopen_empty:
  "filename l = [] \<Longrightarrow>
     Reopen l w = (None, l\<lparr>fd := None\<rparr>,
       (case fd l of Some h \<Rightarrow> file_Close h | None \<Rightarrow> (\<lambda>w. w))
          (logrus_SetOutput Stderr (emit (EvStoreFd None) (emit EvLock w)))
       \<lparr>trace := trace w @ [EvLock, EvStoreFd None, EvSetOutput Stderr] @
              (case fd l of Some h \<Rightarrow> [EvClose h] | None \<Rightarrow> []) @ [EvUnlock]\<rparr>)"
  by (simp add: Reopen_def Reopen_swap_def prim_defs Let_def split: option.splits)

lemma Open_chans:
  "chans (snd (snd (Open name l w))) =
     (case watcherDone l of Some c \<Rightarrow> (chans w)[c := True] | None \<Rightarrow> chans w) @ [False]"
  by (simp add: Open_world fsWatch_frame make_chan_def close_chan_def Reopen_frame Let_def
      split: option.splits)

lemma fsWatch_subscribed:
  assumes "name \<noteq> []" and "newwatcher_err w = None" and "watch_err w name = None"
  shows "goroutines (fsWatch name c w) =
           goroutines w @
           [\<lparr>t_watcher = length (watchers w), t_filename = name, t_quit = c, t_err = None\<rparr>] \<and>
         watchers (fsWatch name c w) =
           watchers w @
           [\<lparr>w_watches = [(name, {FSN_CREATE, FSN_DELETE, FSN_RENAME})], w_closed = False\<rparr>]"
  using assms by (simp add: fsWatch_def prim_defs Let_def)

lemma before_fsWatch_frame:
  "goroutines (snd (make_chan (case d of Some c \<Rightarrow> close_chan c w | None \<Rightarrow> w))) = goroutines w \<and>
   watchers (snd (make_chan (case d of Some c \<Rightarrow> close_chan c w | None \<Rightarrow> w))) = watchers w \<and>
   newwatcher_err (snd (make_chan (case d of Some c \<Rightarrow> close_chan c w | None \<Rightarrow> w))) = newwatcher_err w \<and>
   watch_err (snd (make_chan (case d of Some c \<Rightarrow> close_chan c w | None \<Rightarrow> w))) = watch_err w"
  by (simp add: make_chan_def close_chan_def Let_def split: option.splits)

lemma fsWatch_empty:
  "goroutines (fsWatch [] c w) = goroutines w \<and>
   concat (map w_watches (watchers (fsWatch [] c w))) = concat (map w_watches (watchers w)) \<and>
   phases (trace (fsWatch [] c w)) = phases (trace w)"
  by (simp add: fsWatch_def fsnotify_NewWatcher_def Let_def split: option.splits)

lemma cancelled_all:
  assumes "one_subscription l w"
  shows "filter (\<lambda>t. \<not> (t_quit t < length (chans w) + 1 \<and>
            ((case watcherDone l of Some c \<Rightarrow> (chans w)[c := True] | None \<Rightarrow> chans w) @ [False]) ! t_quit t))
           (goroutines w) = []"
  using assms
  by (auto simp add: one_subscription_def list_all_iff filter_empty_conv nth_append
      nth_list_update split: option.splits)

text \<open>What each function adds to the projections of a trace.\<close>

lemma log_all_Stderr:
  "logrus_out w = Stderr \<Longrightarrow>
     trace (log_all ms w) = trace w @ map (\<lambda>(lvl, m). EvLog lvl m Stderr None) ms"
proof (induction ms arbitrary: w)
  case Nil
  then show ?case by simp
next
  case (Cons a ms)
  obtain lvl m where a: "a = (lvl, m)" by (cases a)
  have "logrus_out (logrus_log lvl m w) = Stderr"
    using Cons.prems by (simp add: logrus_log_def)
  from Cons.IH [OF this] Cons.prems a show ?case
    by (simp add: logrus_log_def writable_def)
qed

lemma Reopen_phases:
  "phases (trace (snd (snd (Reopen l w)))) = phases (trace w) @ [ReopenEntered, ReopenLeft]"
  by (simp add: Reopen_def Reopen_swap_def prim_defs Let_def split: option.splits)

lemma Reopen_logged:
  "logged (trace (snd (snd (Reopen l w)))) = logged (trace w)"
  by (simp add: Reopen_def Reopen_swap_def prim_defs Let_def split: option.splits)

lemma subscribe_phases:
  "phases (trace (subscribe wt name w)) = phases (trace w) @ [Subscribes name]"
  by (simp add: prim_defs split: option.splits)

lemma on_event_phases:
  "phases (trace (snd (on_event t l w))) =
     phases (trace w) @ [ReopenEntered, ReopenLeft, Subscribes (t_filename t)]"
  by (simp add: on_event_def Let_def case_prod_beta subscribe_phases Reopen_phases
      Filename_def logrus_log_def split: option.splits)

lemma hup_reload_frame:
  "files (hup_reload w) = files w \<and> open_err (hup_reload w) = open_err w \<and>
   reload_err (hup_reload w) = reload_err w"
  by (simp add: hup_reload_def app_ReloadConfig_def Let_def split: option.splits)

lemma hup_reload_trace:
  "phases (trace (hup_reload w)) = phases (trace w) @ [Reloads (reload_err w)] \<and>
   logged (trace (hup_reload w)) =
     logged (trace w) @
     (InfoLevel, HupReload) #
     (case reload_err w of
        Some e \<Rightarrow> [(ErrorLevel, ReloadFailed e)]
      | None \<Rightarrow> [(InfoLevel, ReloadOk)])"
  by (simp add: hup_reload_def app_ReloadConfig_def Let_def split: option.splits)

lemma hup_reopen_logger: "fst (hup_reopen l w) = fst (snd (Reopen l w))"
  by (simp add: hup_reopen_def Let_def case_prod_beta split: option.splits)

lemma hup_reopen_frame: "reload_err (snd (hup_reopen l w)) = reload_err w"
  by (simp add: hup_reopen_def Let_def case_prod_beta Filename_def Reopen_frame
      split: option.splits)

lemma hup_reopen_trace:
  "phases (trace (snd (hup_reopen l w))) = phases (trace w) @ [ReopenEntered, ReopenLeft] \<and>
   logged (trace (snd (hup_reopen l w))) =
     logged (trace w) @
     (InfoLevel, HupReopen (filename l)) #
     (case fst (Reopen l w) of
        Some e \<Rightarrow> [(ErrorLevel, ReopenFailed (filename l) e)]
      | None \<Rightarrow> [])"
  by (simp add: hup_reopen_def Let_def case_prod_beta Filename_def Reopen_frame Reopen_phases
      Reopen_logged split: option.splits)

section \<open>Reopen among other goroutines\<close>

text \<open>The statements of \<open>reopen_step\<close>, run one after the other, are \<open>Reopen\<close>.\<close>

lemma Reopen_by_steps:
  "reopen_steps 6 PcCall l w = (PcDone (fst (Reopen l w)), snd (Reopen l w))"
  by (simp add: eval_nat_numeral Reopen_def Reopen_swap_def os_OpenFile_def Let_def
      split: option.splits)

text \<open>Each statement of the goroutine holding the lock keeps \<open>pc_inv\<close>.\<close>

lemma sys_inv_start: "consistent l w \<Longrightarrow> sys_inv (start l w)"
  by (simp add: sys_inv_def start_def)

lemma handle_open_frame [simp]:
  "handle_open h (emit e w) = handle_open h w"
  "handle_open h (w\<lparr>open_err := f\<rparr>) = handle_open h w"
  "handle_open h (logrus_log lvl m w) = handle_open h w"
  "handle_open h (logrus_SetOutput out w) = handle_open h w"
  by (simp_all add: handle_open_def writable_def logrus_SetOutput_def split: writer.splits)

lemma consistent_handle: "consistent l w = (logrus_out w = writer_of (fd l) \<and> handle_open (fd l) w)"
  by (simp add: consistent_def handle_open_def)

lemma consistent_frame [simp]:
  "consistent l (emit e w) = consistent l w"
  "consistent l (w\<lparr>open_err := f\<rparr>) = consistent l w"
  "consistent (l\<lparr>filename := name\<rparr>) w = consistent l w"
  "consistent l (logrus_log lvl m w) = consistent l w"
  by (simp_all add: consistent_handle)

lemma pc_inv_emit [simp]: "pc_inv pc l (emit e w) = pc_inv pc l w"
  by (cases pc) simp_all

lemma pc_inv_open_err [simp]: "pc_inv pc l (w\<lparr>open_err := f\<rparr>) = pc_inv pc l w"
  by (cases pc) simp_all

lemma pc_inv_log [simp]: "pc_inv pc l (logrus_log lvl m w) = pc_inv pc l w"
  by (cases pc) simp_all

lemma handle_open_after_open:
  "handle_open h w \<Longrightarrow>
   handle_open h (w\<lparr>files := files w @ [f]\<rparr>)"
  by (cases h) (simp_all add: handle_open_def writable_def writer_of_def nth_append)

lemma handle_open_new:
  "\<not> f_closed f \<Longrightarrow> handle_open (Some (length (files w))) (w\<lparr>files := files w @ [f]\<rparr>)"
  by (simp add: handle_open_def writable_def writer_of_def)

lemma handle_open_bound: "handle_open (Some h) w \<Longrightarrow> h < length (files w)"
  by (simp add: handle_open_def writable_def writer_of_def)

lemma handle_open_after_close:
  "handle_open h w \<Longrightarrow> h \<noteq> Some k \<Longrightarrow> handle_open h (file_Close k w)"
  by (cases h) (simp_all add: handle_open_def writable_def writer_of_def file_Close_def)

lemma logrus_out_SetOutput: "logrus_out (logrus_SetOutput out w) = out"
  by (simp add: logrus_SetOutput_def)

lemma step_locked:
  assumes "pc_inv PcLocked l w"
  shows "case reopen_step PcLocked l w of
           (pc', l', w') \<Rightarrow> critical pc' \<and> pc_inv pc' l' w'"
proof (cases "filename l = []")
  case True
  with assms show ?thesis by (simp add: handle_open_def writable_def writer_of_def)
next
  case False
  show ?thesis
  proof (cases "open_err w (filename l)")
    case (Some err)
    with False assms show ?thesis by (simp add: os_OpenFile_def)
  next
    case None
    let ?f = "\<lparr>f_name = filename l, f_flag = {O_RDWR, O_CREATE, O_APPEND}, f_perm = mode_0644,
               f_closed = False\<rparr>"
    from assms have c: "logrus_out w = writer_of (fd l)" "handle_open (fd l) w"
      by (simp_all add: consistent_handle)
    have 1: "handle_open (fd l) (w\<lparr>files := files w @ [?f]\<rparr>)"
      using c(2) by (rule handle_open_after_open)
    have 2: "handle_open (Some (length (files w))) (w\<lparr>files := files w @ [?f]\<rparr>)"
      by (rule handle_open_new) simp
    have 3: "Some (length (files w)) \<noteq> fd l"
      using handle_open_bound [of "length (files w)" w] c(2) by auto
    from False None c(1) 1 2 3 show ?thesis
      by (simp add: os_OpenFile_def Let_def consistent_handle)
  qed
qed

lemma step_opened:
  assumes "pc_inv (PcOpened newFd) l w"
  shows "case reopen_step (PcOpened newFd) l w of
           (pc', l', w') \<Rightarrow> critical pc' \<and> pc_inv pc' l' w'"
  using assms by (auto simp add: consistent_handle)

lemma step_stored:
  assumes "pc_inv (PcStored oldFd) l w"
  shows "case reopen_step (PcStored oldFd) l w of
           (pc', l', w') \<Rightarrow> critical pc' \<and> pc_inv pc' l' w'"
  using assms by (simp add: consistent_handle logrus_out_SetOutput)

lemma step_output:
  assumes "pc_inv (PcOutput oldFd) l w"
  shows "case reopen_step (PcOutput oldFd) l w of
           (pc', l', w') \<Rightarrow> critical pc' \<and> pc_inv pc' l' w'"
proof (cases oldFd)
  case None
  with assms show ?thesis by simp
next
  case (Some k)
  with assms have c: "logrus_out w = writer_of (fd l)" "handle_open (fd l) w" "fd l \<noteq> Some k"
    by (auto simp add: consistent_handle)
  have "handle_open (fd l) (file_Close k w)"
    using c(2,3) by (rule handle_open_after_close)
  moreover have "logrus_out (file_Close k w) = logrus_out w"
    by (simp add: file_Close_def)
  ultimately show ?thesis using Some c(1)
    by (simp add: consistent_handle)
qed

lemma step_return:
  assumes "pc_inv (PcReturn r) l w"
  shows "case reopen_step (PcReturn r) l w of
           (pc', l', w') \<Rightarrow> \<not> critical pc' \<and> consistent l' w'"
  using assms by simp

text \<open>Each action of the system keeps \<open>sys_inv\<close>, and no write fails under it.\<close>

lemma sys_inv_holder_step:
  assumes "sys_inv s" and "mu s = Some i" and "critical pc'" and "pc_inv pc' l' w'"
  shows "sys_inv (s\<lparr>the_logger := l', the_world := w', mu := Some i,
                     pcs := (pcs s)(i := pc')\<rparr>)"
  using assms by (auto simp add: sys_inv_def)

lemma sys_inv_release:
  assumes "sys_inv s" and "mu s = Some i" and "\<not> critical pc'" and "consistent l' w'"
  shows "sys_inv (s\<lparr>the_logger := l', the_world := w', mu := None,
                     pcs := (pcs s)(i := pc')\<rparr>)"
  using assms by (auto simp add: sys_inv_def)

lemma sys_inv_acquire:
  assumes "sys_inv s" and "mu s = None"
  shows "sys_inv (s\<lparr>the_logger := the_logger s, the_world := emit EvLock (the_world s),
                     mu := Some i, pcs := (pcs s)(i := PcLocked)\<rparr>)"
  using assms by (auto simp add: sys_inv_def)

lemma sys_inv_holder:
  assumes "sys_inv s" and "critical (pcs s i)"
  shows "mu s = Some i" and "pc_inv (pcs s i) (the_logger s) (the_world s)"
  using assms by (auto simp add: sys_inv_def)

lemma step_keeps:
  assumes "critical pc" and "pc_inv pc l w" and "\<forall>r. pc \<noteq> PcReturn r"
  shows "critical (fst (reopen_step pc l w)) \<and>
         pc_inv (fst (reopen_step pc l w)) (fst (snd (reopen_step pc l w)))
           (snd (snd (reopen_step pc l w)))"
proof (cases pc)
  case PcLocked
  with assms(2) step_locked [of l w] show ?thesis
    by (simp add: case_prod_beta del: reopen_step.simps)
next
  case (PcOpened newFd)
  with assms(2) step_opened [of newFd l w] show ?thesis
    by (simp add: case_prod_beta del: reopen_step.simps)
next
  case (PcStored oldFd)
  with assms(2) step_stored [of oldFd l w] show ?thesis
    by (simp add: case_prod_beta del: reopen_step.simps)
next
  case (PcOutput oldFd)
  with assms(2) step_output [of oldFd l w] show ?thesis
    by (simp add: case_prod_beta del: reopen_step.simps)
qed (use assms in simp_all)

lemma exec1_Step_critical:
  assumes "sys_inv s" and "critical (pcs s i)"
  shows "sys_inv (exec1 (Step i) s)"
proof -
  let ?R = "reopen_step (pcs s i) (the_logger s) (the_world s)"
  have h: "mu s = Some i" "pc_inv (pcs s i) (the_logger s) (the_world s)"
    using sys_inv_holder [OF assms] by simp_all
  have ne: "pcs s i \<noteq> PcCall" using assms(2) by auto
  show ?thesis
  proof (cases "\<exists>r. pcs s i = PcReturn r")
    case True
    then obtain r where r: "pcs s i = PcReturn r" by blast
    have "\<not> critical (fst ?R)" "consistent (fst (snd ?R)) (snd (snd ?R))"
      using h(2) by (simp_all add: r)
    from sys_inv_release [OF assms(1) h(1) this] show ?thesis
      by (simp add: r)
  next
    case False
    then have "critical (fst ?R)" "pc_inv (fst ?R) (fst (snd ?R)) (snd (snd ?R))"
      using step_keeps [OF assms(2) h(2)] by simp_all
    moreover have "(case pcs s i of PcCall \<Rightarrow> Some i | PcReturn r \<Rightarrow> None | _ \<Rightarrow> mu s) = Some i"
      using False h(1) assms(2) by (cases "pcs s i") simp_all
    ultimately show ?thesis
      using sys_inv_holder_step [OF assms(1) h(1), of "fst ?R" "fst (snd ?R)" "snd (snd ?R)"] ne
      by (simp add: case_prod_beta del: reopen_step.simps)
  qed
qed

lemma exec1_Step_inv:
  assumes "sys_inv s"
  shows "sys_inv (exec1 (Step i) s)"
proof (cases "critical (pcs s i)")
  case True
  with assms show ?thesis by (rule exec1_Step_critical)
next
  case False
  show ?thesis
  proof (cases "pcs s i = PcCall")
    case True
    show ?thesis
    proof (cases "mu s")
      case None
      with True sys_inv_acquire [OF assms None, of i] show ?thesis by simp
    next
      case (Some j)
      with True assms show ?thesis by simp
    qed
  next
    case nc: False
    with False have "pcs s i = PcIdle \<or> (\<exists>r. pcs s i = PcDone r)"
      by (cases "pcs s i") simp_all
    with assms show ?thesis
      by (auto simp add: sys_inv_def split: option.splits if_splits)
  qed
qed

lemma exec1_inv:
  assumes "sys_inv s"
  shows "sys_inv (exec1 a s)"
proof (cases a)
  case (Call i)
  with assms show ?thesis
    by (cases "pcs s i") (auto simp add: sys_inv_def split: option.splits if_splits)
next
  case (Step i)
  with assms show ?thesis by (simp only: exec1_Step_inv)
next
  case (SetFilename name)
  with assms show ?thesis
    by (auto simp add: sys_inv_def split: option.splits)
next
  case (Write lvl m)
  with assms show ?thesis
    by (auto simp add: sys_inv_def split: option.splits)
next
  case (FsChange f)
  with assms show ?thesis
    by (auto simp add: sys_inv_def split: option.splits)
qed

lemma sys_inv_writable:
  assumes "sys_inv s"
  shows "writable (logrus_out (the_world s)) (the_world s)"
proof (cases "mu s")
  case None
  with assms show ?thesis by (simp add: sys_inv_def consistent_def)
next
  case (Some i)
  with assms have "pc_inv (pcs s i) (the_logger s) (the_world s)"
    by (simp add: sys_inv_def)
  then show ?thesis
    by (cases "pcs s i") (auto simp add: consistent_def handle_open_def)
qed

lemma exec1_failed_writes:
  assumes "sys_inv s"
  shows "failed_writes (trace (the_world (exec1 a s))) = failed_writes (trace (the_world s))"
proof (cases a)
  case (Call i)
  then show ?thesis by (cases "pcs s i") simp_all
next
  case (Step i)
  then show ?thesis
    by (cases "pcs s i")
       (simp_all add: failed_writes_def os_OpenFile_def Let_def logrus_SetOutput_def
          file_Close_def split: option.splits)
next
  case (SetFilename name)
  then show ?thesis by (simp add: failed_writes_def)
next
  case (Write lvl m)
  with sys_inv_writable [OF assms] show ?thesis
    by (simp add: failed_writes_def logrus_log_def)
next
  case (FsChange f)
  then show ?thesis by simp
qed

lemma exec_inv:
  "sys_inv s \<Longrightarrow>
     sys_inv (exec acts s) \<and>
     failed_writes (trace (the_world (exec acts s))) = failed_writes (trace (the_world s))"
proof (induction acts arbitrary: s)
  case Nil
  then show ?case by (simp add: exec_def)
next
  case (Cons a acts)
  have e: "exec (a # acts) s = exec acts (exec1 a s)" by (simp add: exec_def)
  from Cons.prems have i: "sys_inv (exec1 a s)" by (rule exec1_inv)
  from Cons.IH [OF i] exec1_failed_writes [OF Cons.prems, of a] e show ?case
    by simp
qed

text \<open>
  As long as the filename is not changed, every action keeps the handle matching the
  filename.
\<close>

lemma handle_matches_frame [simp]:
  "handle_matches l (emit e w) = handle_matches l w"
  "handle_matches l (w\<lparr>open_err := f\<rparr>) = handle_matches l w"
  "handle_matches l (logrus_log lvl m w) = handle_matches l w"
  "handle_matches l (logrus_SetOutput out w) = handle_matches l w"
  by (simp_all add: handle_matches_def logrus_SetOutput_def split: option.splits)

lemma pc_hm_frame [simp]:
  "pc_hm pc l (emit e w) = pc_hm pc l w"
  "pc_hm pc l (w\<lparr>open_err := f\<rparr>) = pc_hm pc l w"
  "pc_hm pc l (logrus_log lvl m w) = pc_hm pc l w"
  by (cases pc; simp)+

lemma pc_hm_handle: "pc_hm pc l w \<Longrightarrow> handle_matches l w"
  by (cases pc) simp_all

lemma handle_matches_after_open:
  "handle_matches l w \<Longrightarrow> handle_matches l (w\<lparr>files := files w @ [f]\<rparr>)"
  by (simp add: handle_matches_def nth_append split: option.splits)

lemma handle_matches_new:
  "filename l \<noteq> [] \<Longrightarrow>
   handle_matches (l\<lparr>fd := Some (length (files w))\<rparr>)
     (w\<lparr>files := files w @
        [\<lparr>f_name = filename l, f_flag = {O_RDWR, O_CREATE, O_APPEND}, f_perm = p,
          f_closed = False\<rparr>]\<rparr>)"
  by (simp add: handle_matches_def)

lemma handle_matches_after_close:
  "handle_matches l w \<Longrightarrow> fd l \<noteq> Some k \<Longrightarrow> handle_matches l (file_Close k w)"
  by (simp add: handle_matches_def file_Close_def split: option.splits)

text \<open>One statement of the goroutine holding the lock keeps \<open>pc_hm\<close>.\<close>

lemma step_hm:
  assumes "pc_hm pc l w" and "pc_inv pc l w"
  shows "pc_hm (fst (reopen_step pc l w)) (fst (snd (reopen_step pc l w)))
           (snd (snd (reopen_step pc l w)))"
proof (cases pc)
  case PcLocked
  show ?thesis
  proof (cases "filename l = []")
    case True
    with PcLocked assms(1) show ?thesis by (simp add: handle_matches_def)
  next
    case False
    show ?thesis
    proof (cases "open_err w (filename l)")
      case (Some err)
      with False PcLocked assms(1) show ?thesis by (simp add: os_OpenFile_def)
    next
      case None
      with False PcLocked assms(1) show ?thesis
        by (simp add: os_OpenFile_def Let_def handle_matches_after_open handle_matches_new)
    qed
  qed
next
  case (PcOpened newFd)
  with assms(1) show ?thesis by simp
next
  case (PcStored oldFd)
  with assms(1) show ?thesis by simp
next
  case (PcOutput oldFd)
  show ?thesis
  proof (cases oldFd)
    case None
    with PcOutput assms(1) show ?thesis by simp
  next
    case (Some k)
    with PcOutput assms have "handle_matches l w" "fd l \<noteq> Some k" by auto
    then have "handle_matches l (file_Close k w)" by (rule handle_matches_after_close)
    with PcOutput Some show ?thesis by simp
  qed
qed (use assms in simp_all)

lemma exec1_Step_hm:
  assumes "sys_inv s" and "hm_inv s"
  shows "hm_inv (exec1 (Step i) s)"
proof (cases "critical (pcs s i)")
  case True
  let ?R = "reopen_step (pcs s i) (the_logger s) (the_world s)"
  have h: "mu s = Some i" "pc_inv (pcs s i) (the_logger s) (the_world s)"
    using sys_inv_holder [OF assms(1) True] by simp_all
  with assms(2) have "pc_hm (pcs s i) (the_logger s) (the_world s)"
    by (simp add: hm_inv_def)
  then have k: "pc_hm (fst ?R) (fst (snd ?R)) (snd (snd ?R))"
    using h(2) by (rule step_hm)
  have ne: "pcs s i \<noteq> PcCall" using True by auto
  show ?thesis
  proof (cases "\<exists>r. pcs s i = PcReturn r")
    case True
    then obtain r where r: "pcs s i = PcReturn r" by blast
    with k show ?thesis by (simp add: hm_inv_def)
  next
    case False
    with True h(1) have "(case pcs s i of PcCall \<Rightarrow> Some i | PcReturn r \<Rightarrow> None | _ \<Rightarrow> mu s) = Some i"
      by (cases "pcs s i") simp_all
    with k ne show ?thesis
      by (simp add: hm_inv_def case_prod_beta del: reopen_step.simps)
  qed
next
  case False
  show ?thesis
  proof (cases "pcs s i = PcCall")
    case True
    show ?thesis
    proof (cases "mu s")
      case None
      with True assms(2) show ?thesis by (simp add: hm_inv_def)
    next
      case (Some j)
      with True assms(2) show ?thesis by simp
    qed
  next
    case nc: False
    with False have d: "pcs s i = PcIdle \<or> (\<exists>r. pcs s i = PcDone r)"
      by (cases "pcs s i") simp_all
    have "mu s \<noteq> Some i" using assms(1) False by (auto simp add: sys_inv_def)
    with d assms(2) show ?thesis
      by (auto simp add: hm_inv_def split: option.splits)
  qed
qed

lemma exec1_hm:
  assumes "sys_inv s" and "hm_inv s" and "\<not> is_rename a"
  shows "hm_inv (exec1 a s)"
proof (cases a)
  case (Call i)
  have "mu s \<noteq> Some i \<or> critical (pcs s i)" using assms(1) by (auto simp add: sys_inv_def)
  with Call assms(2) show ?thesis
    by (cases "pcs s i") (auto simp add: hm_inv_def split: option.splits)
next
  case (Step i)
  with assms show ?thesis by (simp only: exec1_Step_hm)
next
  case (SetFilename name)
  with assms(3) show ?thesis by simp
next
  case (Write lvl m)
  with assms(2) show ?thesis by (simp add: hm_inv_def split: option.splits)
next
  case (FsChange f)
  with assms(2) show ?thesis by (simp add: hm_inv_def split: option.splits)
qed

lemma exec_hm:
  "sys_inv s \<Longrightarrow> hm_inv s \<Longrightarrow> \<not> list_ex is_rename acts \<Longrightarrow> hm_inv (exec acts s)"
proof (induction acts arbitrary: s)
  case Nil
  then show ?case by (simp add: exec_def)
next
  case (Cons a acts)
  have e: "exec (a # acts) s = exec acts (exec1 a s)" by (simp add: exec_def)
  from Cons.prems have n: "\<not> is_rename a" "\<not> list_ex is_rename acts" by simp_all
  from Cons.prems(1) have i: "sys_inv (exec1 a s)" by (rule exec1_inv)
  from Cons.prems(1,2) n(1) have "hm_inv (exec1 a s)" by (rule exec1_hm)
  from Cons.IH [OF i this n(2)] e show ?case by simp
qed

lemma Reopen_keeps_match:
  assumes "consistent l w" and "handle_matches l w" and "\<not> list_ex is_rename acts"
  shows "handle_matches (the_logger (exec acts (start l w))) (the_world (exec acts (start l w)))"
proof -
  have "sys_inv (start l w)" using assms(1) by (rule sys_inv_start)
  moreover have "hm_inv (start l w)" using assms(2) by (simp add: hm_inv_def start_def)
  ultimately have "hm_inv (exec acts (start l w))" using assms(3) by (rule exec_hm)
  then show ?thesis
    by (auto simp add: hm_inv_def dest: pc_hm_handle split: option.splits)
qed

section \<open>The states the program reaches\<close>

text \<open>
  Two conditions on the logger and the world appear as hypotheses below. Both hold when
  the process starts and are kept by \<open>Reopen\<close> and \<open>Open\<close>: \<open>consistent\<close> (logrus writes to
  the logger's handle, which is open) and \<open>one_subscription\<close>.
\<close>

lemma consistent_boot: "consistent NewFileLogger boot_world"
  by (simp add: consistent_def NewFileLogger_def boot_world_def writer_of_def writable_def)

lemma Reopen_consistent:
  assumes "consistent l w"
  shows "consistent (fst (snd (Reopen l w))) (snd (snd (Reopen l w)))"
proof (cases "filename l = []")
  case True
  then show ?thesis
    by (simp add: Reopen_empty consistent_def writable_def writer_of_def logrus_SetOutput_def
        file_Close_def split: option.splits)
next
  case False
  show ?thesis
  proof (cases "open_err w (filename l)")
    case (Some err)
    with False assms show ?thesis
      by (simp add: Reopen_def os_OpenFile_def)
  next
    case None
    from assms have "fd_valid l w"
      by (simp add: consistent_def fd_valid_def writable_def writer_of_def split: option.splits)
    with False None show ?thesis
      by (simp add: Reopen_def Reopen_swap_def prim_defs Let_def fd_valid_def consistent_def
          writable_def nth_append split: option.splits)
  qed
qed

lemma Open_consistent:
  assumes "consistent l w"
  shows "consistent (fst (snd (Open name l w))) (snd (snd (Open name l w)))"
proof -
  let ?l = "l\<lparr>filename := name\<rparr>" and ?w = "emit EvUnlock (emit EvLock w)"
  have "consistent ?l ?w" using assms by simp
  then have "consistent (fst (snd (Reopen ?l ?w))) (snd (snd (Reopen ?l ?w)))"
    by (rule Reopen_consistent)
  then show ?thesis
    by (simp add: consistent_def writable_def Open_logger Open_files split: writer.splits)
qed

lemma one_subscription_boot: "one_subscription NewFileLogger boot_world"
  by (simp add: one_subscription_def NewFileLogger_def boot_world_def)

lemma Reopen_one_subscription:
  "one_subscription l w \<Longrightarrow>
     one_subscription (fst (snd (Reopen l w))) (snd (snd (Reopen l w)))"
  by (simp add: one_subscription_def Reopen_frame split: option.splits)

lemma fsWatch_goroutines:
  "goroutines (fsWatch name c w) = goroutines w \<or>
   goroutines (fsWatch name c w) =
     goroutines w @ [\<lparr>t_watcher = length (watchers w), t_filename = name, t_quit = c,
                      t_err = None\<rparr>]"
  by (simp add: fsWatch_def fsnotify_NewWatcher_def subscribe_def WatchFlags_def go_task_def
      Let_def split: option.splits)

lemma kept_subscriptions:
  assumes "one_subscription l w"
  shows "list_all (\<lambda>t. t_quit t < Suc (length (chans w)) \<and>
            (t_quit t = length (chans w) \<or>
             ((case watcherDone l of Some c \<Rightarrow> (chans w)[c := True] | None \<Rightarrow> chans w) @ [False])
               ! t_quit t))
          (goroutines w)"
  using assms
  by (auto simp add: one_subscription_def list_all_iff nth_append nth_list_update
      split: option.splits)

lemma Open_one_subscription:
  assumes "one_subscription l w"
  shows "one_subscription (fst (snd (Open name l w))) (snd (snd (Open name l w)))"
proof -
  let ?R = "snd (snd (Reopen (l\<lparr>filename := name\<rparr>) (emit EvUnlock (emit EvLock w))))"
  let ?w4 = "snd (make_chan (case watcherDone l of Some c \<Rightarrow> close_chan c ?R | None \<Rightarrow> ?R))"
  let ?n = "length (chans w)"
  let ?ch = "(case watcherDone l of Some c \<Rightarrow> (chans w)[c := True] | None \<Rightarrow> chans w) @ [False]"
  let ?ok = "\<lambda>t. t_quit t < Suc ?n \<and> (t_quit t = ?n \<or> ?ch ! t_quit t)"
  have W: "snd (snd (Open name l w)) = fsWatch name ?n ?w4" by (rule Open_world)
  have c: "chans (snd (snd (Open name l w))) = ?ch" by (rule Open_chans)
  have d: "watcherDone (fst (snd (Open name l w))) = Some ?n" by (simp add: Open_logger)
  have g4: "goroutines ?w4 = goroutines w" by (simp add: before_fsWatch_frame Reopen_frame)
  have old: "list_all ?ok (goroutines w)"
    using assms by (rule kept_subscriptions)
  have len: "length ?ch = Suc ?n" by (simp split: option.splits)
  have "list_all ?ok (goroutines (fsWatch name ?n ?w4))"
  proof (rule disjE [OF fsWatch_goroutines [of name ?n ?w4]])
    assume "goroutines (fsWatch name ?n ?w4) = goroutines ?w4"
    with old g4 show ?thesis by simp
  next
    assume "goroutines (fsWatch name ?n ?w4) =
      goroutines ?w4 @ [\<lparr>t_watcher = length (watchers ?w4), t_filename = name, t_quit = ?n,
                          t_err = None\<rparr>]"
    with old g4 show ?thesis by simp
  qed
  then have "list_all (\<lambda>t. t_quit t < length ?ch \<and> (Some (t_quit t) = Some ?n \<or> ?ch ! t_quit t))
          (goroutines (snd (snd (Open name l w))))"
    by (simp only: W len option.inject)
  moreover have "?n < length ?ch" by (simp only: len lessI)
  ultimately show ?thesis
    by (simp only: one_subscription_def c d option.case simp_thms)
qed

section \<open>Reopen\<close>


text \<open>
  C1. When the current filename is not empty and \<^verbatim>\<open>os.OpenFile\<close> fails with \<open>err\<close>,
  \<open>Reopen\<close> returns \<open>err\<close>; the logger (filename, handle) is unchanged, the output of
  logrus is unchanged, and no file object is touched, so the previous handle is as
  usable as before. The only effects are the lock, the failed open and the unlock.
\<close>

theorem Reopen_failure_keeps_state:
  assumes "filename l \<noteq> []" and "open_err w (filename l) = Some err"
  shows "Reopen l w =
           (Some err, l,
            w\<lparr>trace := trace w @
               [EvLock,
                EvOpenFile (filename l) {O_RDWR, O_CREATE, O_APPEND} mode_0644 (Inl err),
                EvUnlock]\<rparr>)"
  using assms by (simp add: Reopen_def os_OpenFile_def emit_def)

theorem Reopen_failure_keeps_state_witness:
  "filename (NewFileLogger\<lparr>filename := ''/log/a''\<rparr>) \<noteq> [] \<and>
   open_err (boot_world\<lparr>open_err := (\<lambda>p. Some ''permission denied'')\<rparr>)
     (filename (NewFileLogger\<lparr>filename := ''/log/a''\<rparr>)) = Some ''permission denied'' \<and>
   Reopen (NewFileLogger\<lparr>filename := ''/log/a''\<rparr>)
     (boot_world\<lparr>open_err := (\<lambda>p. Some ''permission denied'')\<rparr>) =
     (Some ''permission denied'',
      NewFileLogger\<lparr>filename := ''/log/a''\<rparr>,
      boot_world\<lparr>open_err := (\<lambda>p. Some ''permission denied''),
        trace := [EvLock,
                  EvOpenFile ''/log/a'' {O_RDWR, O_CREATE, O_APPEND} mode_0644
                    (Inl ''permission denied''),
                  EvUnlock]\<rparr>)"
  using Reopen_failure_keeps_state
    [of "NewFileLogger\<lparr>filename := ''/log/a''\<rparr>"
        "boot_world\<lparr>open_err := (\<lambda>p. Some ''permission denied'')\<rparr>" "''permission denied''"]
  by (simp add: NewFileLogger_def boot_world_def)

text \<open>
  C3. When the current filename is not empty and \<^verbatim>\<open>os.OpenFile\<close> succeeds, \<open>Reopen\<close>
  returns \<^verbatim>\<open>nil\<close> and its effects are, in this order: the lock; the open of the filename
  with \<^verbatim>\<open>O_RDWR|O_CREATE|O_APPEND\<close> and permission \<^verbatim>\<open>0644\<close> (420), giving a new file
  object; the store of the new handle into \<open>fd\<close>; \<^verbatim>\<open>logrus.SetOutput\<close> to the new handle;
  the close of the previous handle, when there was one; the unlock. Afterwards the
  logger holds the new handle, logrus writes to it, the new file object is open and
  the previous one is closed.
\<close>

theorem Reopen_success:
  assumes "filename l \<noteq> []" and "open_err w (filename l) = None" and "fd_valid l w"
  shows "fst (Reopen l w) = None \<and>
         fst (snd (Reopen l w)) = l\<lparr>fd := Some (length (files w))\<rparr> \<and>
         trace (snd (snd (Reopen l w))) =
           trace w @
           [EvLock,
            EvOpenFile (filename l) {O_RDWR, O_CREATE, O_APPEND} mode_0644
              (Inr (length (files w))),
            EvStoreFd (Some (length (files w))),
            EvSetOutput (FileOut (length (files w)))] @
           (case fd l of Some h \<Rightarrow> [EvClose h] | None \<Rightarrow> []) @ [EvUnlock] \<and>
         logrus_out (snd (snd (Reopen l w))) = FileOut (length (files w)) \<and>
         files (snd (snd (Reopen l w))) =
           (case fd l of
              Some h \<Rightarrow> (files w)[h := (files w ! h)\<lparr>f_closed := True\<rparr>]
            | None \<Rightarrow> files w) @
           [\<lparr>f_name = filename l, f_flag = {O_RDWR, O_CREATE, O_APPEND}, f_perm = mode_0644,
             f_closed = False\<rparr>] \<and>
         mode_0644 = 420"
  using assms
  by (simp add: Reopen_def Reopen_swap_def os_OpenFile_def emit_def logrus_SetOutput_def
      file_Close_def writer_of_def fd_valid_def mode_0644_def list_update_append nth_append
      Let_def split: option.splits)

theorem Reopen_success_witness:
  "fst (Reopen \<lparr>filename = ''/log/a'', fd = Some 0, watcherDone = None\<rparr>
          (boot_world\<lparr>files := [\<lparr>f_name = ''/log/a'', f_flag = {O_RDWR, O_CREATE, O_APPEND},
                                   f_perm = mode_0644, f_closed = False\<rparr>],
                       logrus_out := FileOut 0\<rparr>)) = None \<and>
   trace (snd (snd (Reopen \<lparr>filename = ''/log/a'', fd = Some 0, watcherDone = None\<rparr>
          (boot_world\<lparr>files := [\<lparr>f_name = ''/log/a'', f_flag = {O_RDWR, O_CREATE, O_APPEND},
                                   f_perm = mode_0644, f_closed = False\<rparr>],
                       logrus_out := FileOut 0\<rparr>)))) =
     [EvLock, EvOpenFile ''/log/a'' {O_RDWR, O_CREATE, O_APPEND} mode_0644 (Inr 1),
      EvStoreFd (Some 1), EvSetOutput (FileOut 1), EvClose 0, EvUnlock]"
  using Reopen_success
    [of "\<lparr>filename = ''/log/a'', fd = Some 0, watcherDone = None\<rparr>"
        "boot_world\<lparr>files := [\<lparr>f_name = ''/log/a'', f_flag = {O_RDWR, O_CREATE, O_APPEND},
                                  f_perm = mode_0644, f_closed = False\<rparr>],
                      logrus_out := FileOut 0\<rparr>"]
  by (simp add: boot_world_def fd_valid_def)

section \<open>The filename and the handle\<close>

text \<open>
  C2, as stated, fails. \<open>Open\<close> stores the new filename in a critical section of its own
  (lines 46 to 48) and only then calls \<open>Reopen\<close>, which keeps the old handle when the
  open fails. First conjunct: the log is opened at \<^verbatim>\<open>/log/a\<close>; then \<open>Open\<close> on
  \<^verbatim>\<open>/gone/b\<close>, which cannot be opened, returns the error and leaves the filename
  \<^verbatim>\<open>/gone/b\<close> with the handle of \<^verbatim>\<open>/log/a\<close>. Second conjunct: among other goroutines,
  right after the first critical section of an \<open>Open\<close> on \<^verbatim>\<open>/log/b\<close> the lock is free, the
  filename is \<^verbatim>\<open>/log/b\<close> and the handle is still the one of \<^verbatim>\<open>/log/a\<close>.
\<close>

theorem handle_matches_counterexample:
  "(let (r1, l1, w1) = Open ''/log/a'' NewFileLogger boot_world;
        (r2, l2, w2) =
          Open ''/gone/b'' l1
            (w1\<lparr>open_err := (\<lambda>p. if p = ''/gone/b'' then Some ''no such file or directory''
                                  else None)\<rparr>)
    in r1 = None \<and> r2 = Some ''no such file or directory'' \<and> filename l2 = ''/gone/b'' \<and>
       fd l2 = Some 0 \<and> f_name (files w2 ! 0) = ''/log/a'' \<and> \<not> handle_matches l2 w2) \<and>
   (let (r1, l1, w1) = Open ''/log/a'' NewFileLogger boot_world;
        s = exec [SetFilename ''/log/b''] (start l1 w1)
    in mu s = None \<and> filename (the_logger s) = ''/log/b'' \<and> fd (the_logger s) = Some 0 \<and>
       f_name (files (the_world s) ! 0) = ''/log/a'' \<and>
       \<not> handle_matches (the_logger s) (the_world s))"
  by (simp add: Open_def Reopen_def Reopen_swap_def fsWatch_def prim_defs NewFileLogger_def
      boot_world_def Let_def handle_matches_def exec_def start_def)

text \<open>
  C2, amended. After every \<open>Reopen\<close> that returns \<^verbatim>\<open>nil\<close>, and after every \<open>Open\<close> that
  returns \<^verbatim>\<open>nil\<close>, the handle matches the filename: there is no handle when the filename
  is empty, and otherwise the handle is an open file object opened in append mode at
  the current filename (which, after \<open>Open name\<close>, is \<open>name\<close>). And \<open>Reopen\<close> keeps the
  match at every point: from a state where the handle matches the filename (and logrus
  writes to the handle), in every interleaving of calls of \<open>Reopen\<close>, executed statement by
  statement by any number of goroutines, with log writes and changes of the file
  system, the handle matches the filename after every action, as long as no action
  changes the filename. The logger's handle is assumed to be an existing file object
  beforehand.
\<close>

theorem handle_matches_after_success:
  assumes "fd_valid l w"
  shows "(fst (Reopen l w) = None \<longrightarrow>
            handle_matches (fst (snd (Reopen l w))) (snd (snd (Reopen l w)))) \<and>
         (fst (Open name l w) = None \<longrightarrow>
            filename (fst (snd (Open name l w))) = name \<and>
            handle_matches (fst (snd (Open name l w))) (snd (snd (Open name l w)))) \<and>
         (consistent l w \<and> handle_matches l w \<and> \<not> list_ex is_rename acts \<longrightarrow>
            handle_matches (the_logger (exec acts (start l w)))
              (the_world (exec acts (start l w))))"
proof (intro conjI impI)
  assume "fst (Reopen l w) = None"
  with assms show "handle_matches (fst (snd (Reopen l w))) (snd (snd (Reopen l w)))"
    by (rule Reopen_establishes)
next
  assume "fst (Open name l w) = None"
  show "filename (fst (snd (Open name l w))) = name"
    by (simp add: Open_logger Reopen_frame)
next
  assume "fst (Open name l w) = None"
  with assms show "handle_matches (fst (snd (Open name l w))) (snd (snd (Open name l w)))"
    by (rule Open_establishes)
next
  assume "consistent l w \<and> handle_matches l w \<and> \<not> list_ex is_rename acts"
  then show "handle_matches (the_logger (exec acts (start l w)))
              (the_world (exec acts (start l w)))"
    by (simp add: Reopen_keeps_match)
qed

theorem handle_matches_after_success_witness:
  "fd_valid \<lparr>filename = ''/log/a'', fd = Some 0, watcherDone = None\<rparr>
     (boot_world\<lparr>files := [\<lparr>f_name = ''/log/a'', f_flag = {O_RDWR, O_CREATE, O_APPEND},
                              f_perm = mode_0644, f_closed = False\<rparr>],
                  logrus_out := FileOut 0\<rparr>) \<and>
   fst (Open ''/log/b'' \<lparr>filename = ''/log/a'', fd = Some 0, watcherDone = None\<rparr>
     (boot_world\<lparr>files := [\<lparr>f_name = ''/log/a'', f_flag = {O_RDWR, O_CREATE, O_APPEND},
                              f_perm = mode_0644, f_closed = False\<rparr>],
                  logrus_out := FileOut 0\<rparr>)) = None \<and>
   handle_matches
     (fst (snd (Open ''/log/b'' \<lparr>filename = ''/log/a'', fd = Some 0, watcherDone = None\<rparr>
       (boot_world\<lparr>files := [\<lparr>f_name = ''/log/a'', f_flag = {O_RDWR, O_CREATE, O_APPEND},
                                f_perm = mode_0644, f_closed = False\<rparr>],
                    logrus_out := FileOut 0\<rparr>))))
     (snd (snd (Open ''/log/b'' \<lparr>filename = ''/log/a'', fd = Some 0, watcherDone = None\<rparr>
       (boot_world\<lparr>files := [\<lparr>f_name = ''/log/a'', f_flag = {O_RDWR, O_CREATE, O_APPEND},
                                f_perm = mode_0644, f_closed = False\<rparr>],
                    logrus_out := FileOut 0\<rparr>)))) \<and>
   handle_matches
     (the_logger (exec [Call 0, Step 0, Step 0, Write InfoLevel (Line ''x''), Step 0]
       (start \<lparr>filename = ''/log/a'', fd = Some 0, watcherDone = None\<rparr>
         (boot_world\<lparr>files := [\<lparr>f_name = ''/log/a'', f_flag = {O_RDWR, O_CREATE, O_APPEND},
                                  f_perm = mode_0644, f_closed = False\<rparr>],
                      logrus_out := FileOut 0\<rparr>))))
     (the_world (exec [Call 0, Step 0, Step 0, Write InfoLevel (Line ''x''), Step 0]
       (start \<lparr>filename = ''/log/a'', fd = Some 0, watcherDone = None\<rparr>
         (boot_world\<lparr>files := [\<lparr>f_name = ''/log/a'', f_flag = {O_RDWR, O_CREATE, O_APPEND},
                                  f_perm = mode_0644, f_closed = False\<rparr>],
                      logrus_out := FileOut 0\<rparr>))))"
proof -
  let ?l = "\<lparr>filename = ''/log/a'', fd = Some 0, watcherDone = None\<rparr>"
  let ?w = "boot_world\<lparr>files := [\<lparr>f_name = ''/log/a'', f_flag = {O_RDWR, O_CREATE, O_APPEND},
                              f_perm = mode_0644, f_closed = False\<rparr>],
                  logrus_out := FileOut 0\<rparr>"
  have v: "fd_valid ?l ?w" by (simp add: fd_valid_def)
  have c: "consistent ?l ?w" by (simp add: consistent_def writable_def writer_of_def)
  have m: "handle_matches ?l ?w" by (simp add: handle_matches_def)
  have r: "fst (Open ''/log/b'' ?l ?w) = None"
    by (simp add: Open_fst Reopen_result boot_world_def)
  have n: "\<not> list_ex is_rename [Call 0, Step 0, Step 0, Write InfoLevel (Line ''x''), Step 0]"
    by simp
  from handle_matches_after_success
    [OF v, of "''/log/b''" "[Call 0, Step 0, Step 0, Write InfoLevel (Line ''x''), Step 0]"]
    v c m r n
  show ?thesis by simp
qed

section \<open>Open\<close>

text \<open>
  C4, as stated, fails: not every filename gets a subscription. With the empty filename
  \<open>fsWatch\<close> returns before it subscribes (line 68): no goroutine is started and no watch
  is registered. When \<^verbatim>\<open>fsnotify.NewWatcher\<close> fails there is no watcher and no goroutine
  (line 63). When \<^verbatim>\<open>WatchFlags\<close> fails no watch is registered (line 73).
\<close>

theorem Open_contract_counterexample:
  "goroutines (snd (snd (Open [] NewFileLogger boot_world))) = [] \<and>
   concat (map w_watches (watchers (snd (snd (Open [] NewFileLogger boot_world))))) = [] \<and>
   goroutines (snd (snd (Open ''/log/a'' NewFileLogger
      (boot_world\<lparr>newwatcher_err := Some ''too many open files''\<rparr>)))) = [] \<and>
   watchers (snd (snd (Open ''/log/a'' NewFileLogger
      (boot_world\<lparr>newwatcher_err := Some ''too many open files''\<rparr>)))) = [] \<and>
   concat (map w_watches (watchers (snd (snd (Open ''/log/a'' NewFileLogger
      (boot_world\<lparr>watch_err := (\<lambda>p. Some ''no space left on device'')\<rparr>)))))) = []"
  by (simp add: Open_def Reopen_def Reopen_swap_def fsWatch_def prim_defs NewFileLogger_def
      boot_world_def Let_def)

text \<open>
  C4, amended. For every filename, \<open>Open\<close> returns exactly the result of its call of
  \<open>Reopen\<close> on the new filename, which is \<^verbatim>\<open>nil\<close> for the empty filename and the result of
  \<^verbatim>\<open>os.OpenFile\<close> otherwise; it records the filename; it closes the previous \<open>watcherDone\<close>
  channel, if there was one, and stores a new, open one. For a filename that is not
  empty, when \<^verbatim>\<open>fsnotify.NewWatcher\<close> and \<^verbatim>\<open>WatchFlags\<close> succeed, it starts one watcher
  goroutine on the filename with the new channel as \<open>quit\<close>, and a new watcher with one
  watch, on the filename, for create, delete and rename. None of this depends on the
  result of \<open>Reopen\<close>.
\<close>

theorem Open_contract:
  "fst (Open name l w) = fst (Reopen (l\<lparr>filename := name\<rparr>) (emit EvUnlock (emit EvLock w))) \<and>
   fst (Open name l w) = (if name = [] then None else open_err w name) \<and>
   filename (fst (snd (Open name l w))) = name \<and>
   watcherDone (fst (snd (Open name l w))) = Some (length (chans w)) \<and>
   chans (snd (snd (Open name l w))) =
     (case watcherDone l of Some c \<Rightarrow> (chans w)[c := True] | None \<Rightarrow> chans w) @ [False] \<and>
   (name \<noteq> [] \<and> newwatcher_err w = None \<and> watch_err w name = None \<longrightarrow>
      goroutines (snd (snd (Open name l w))) =
        goroutines w @
        [\<lparr>t_watcher = length (watchers w), t_filename = name, t_quit = length (chans w),
          t_err = None\<rparr>] \<and>
      watchers (snd (snd (Open name l w))) =
        watchers w @
        [\<lparr>w_watches = [(name, {FSN_CREATE, FSN_DELETE, FSN_RENAME})], w_closed = False\<rparr>])"
proof (intro conjI impI)
  show "fst (Open name l w) = fst (Reopen (l\<lparr>filename := name\<rparr>) (emit EvUnlock (emit EvLock w)))"
    by (rule Open_fst)
  show "fst (Open name l w) = (if name = [] then None else open_err w name)"
    by (simp add: Open_fst Reopen_result)
  show "filename (fst (snd (Open name l w))) = name"
    by (simp add: Open_logger Reopen_frame)
  show "watcherDone (fst (snd (Open name l w))) = Some (length (chans w))"
    by (simp add: Open_logger)
  show "chans (snd (snd (Open name l w))) =
     (case watcherDone l of Some c \<Rightarrow> (chans w)[c := True] | None \<Rightarrow> chans w) @ [False]"
    by (rule Open_chans)
next
  assume h: "name \<noteq> [] \<and> newwatcher_err w = None \<and> watch_err w name = None"
  let ?R = "snd (snd (Reopen (l\<lparr>filename := name\<rparr>) (emit EvUnlock (emit EvLock w))))"
  let ?w4 = "snd (make_chan (case watcherDone l of Some c \<Rightarrow> close_chan c ?R | None \<Rightarrow> ?R))"
  have f: "goroutines ?w4 = goroutines w" "watchers ?w4 = watchers w"
    "newwatcher_err ?w4 = None" "watch_err ?w4 name = None"
    using h by (simp_all add: before_fsWatch_frame Reopen_frame)
  from h have n: "name \<noteq> []" by simp
  show "goroutines (snd (snd (Open name l w))) =
        goroutines w @
        [\<lparr>t_watcher = length (watchers w), t_filename = name, t_quit = length (chans w),
          t_err = None\<rparr>]"
    using fsWatch_subscribed [OF n f(3) f(4), of "length (chans w)"] f(1,2)
    by (simp add: Open_world)
  show "watchers (snd (snd (Open name l w))) =
        watchers w @
        [\<lparr>w_watches = [(name, {FSN_CREATE, FSN_DELETE, FSN_RENAME})], w_closed = False\<rparr>]"
    using fsWatch_subscribed [OF n f(3) f(4), of "length (chans w)"] f(1,2)
    by (simp add: Open_world)
qed

theorem Open_contract_witness:
  "''/log/b'' \<noteq> [] \<and>
   newwatcher_err (boot_world\<lparr>chans := [False], open_err := (\<lambda>p. Some ''permission denied'')\<rparr>) = None \<and>
   watch_err (boot_world\<lparr>chans := [False], open_err := (\<lambda>p. Some ''permission denied'')\<rparr>) ''/log/b'' = None \<and>
   fst (Open ''/log/b'' \<lparr>filename = ''/log/a'', fd = None, watcherDone = Some 0\<rparr>
          (boot_world\<lparr>chans := [False], open_err := (\<lambda>p. Some ''permission denied'')\<rparr>)) =
     Some ''permission denied'' \<and>
   chans (snd (snd (Open ''/log/b'' \<lparr>filename = ''/log/a'', fd = None, watcherDone = Some 0\<rparr>
          (boot_world\<lparr>chans := [False], open_err := (\<lambda>p. Some ''permission denied'')\<rparr>)))) =
     [True, False] \<and>
   goroutines (snd (snd (Open ''/log/b'' \<lparr>filename = ''/log/a'', fd = None, watcherDone = Some 0\<rparr>
          (boot_world\<lparr>chans := [False], open_err := (\<lambda>p. Some ''permission denied'')\<rparr>)))) =
     [\<lparr>t_watcher = 0, t_filename = ''/log/b'', t_quit = 1, t_err = None\<rparr>] \<and>
   watchers (snd (snd (Open ''/log/b'' \<lparr>filename = ''/log/a'', fd = None, watcherDone = Some 0\<rparr>
          (boot_world\<lparr>chans := [False], open_err := (\<lambda>p. Some ''permission denied'')\<rparr>)))) =
     [\<lparr>w_watches = [(''/log/b'', {FSN_CREATE, FSN_DELETE, FSN_RENAME})], w_closed = False\<rparr>]"
proof -
  let ?w = "boot_world\<lparr>chans := [False], open_err := (\<lambda>p. Some ''permission denied'')\<rparr>"
  have e: "newwatcher_err ?w = None" "watch_err ?w ''/log/b'' = None"
    "open_err ?w ''/log/b'' = Some ''permission denied''"
    "chans ?w = [False]" "goroutines ?w = []" "watchers ?w = []"
    by (simp_all add: boot_world_def)
  from Open_contract
    [of "''/log/b''" "\<lparr>filename = ''/log/a'', fd = None, watcherDone = Some 0\<rparr>" ?w] e
  show ?thesis
    by (simp add: Reopen_result)
qed

text \<open>
  C5. After \<open>Open\<close> with the empty filename (from a state in which the logger owns at
  most one subscription): the result is \<^verbatim>\<open>nil\<close> and the handle is \<^verbatim>\<open>nil\<close>; logrus writes to
  standard error, and so does every line logged afterwards, whatever their number; no
  goroutine was started; every watcher goroutine that exists was told to quit; no
  watcher has gained a watch and \<open>Open\<close> never called \<^verbatim>\<open>WatchFlags\<close> (its trace has the two
  lock sections and nothing else that matters).
\<close>

theorem Open_empty_filename:
  assumes "one_subscription l w"
  shows "fst (Open [] l w) = None \<and>
         fd (fst (snd (Open [] l w))) = None \<and>
         logrus_out (snd (snd (Open [] l w))) = Stderr \<and>
         (\<forall>ms. trace (log_all ms (snd (snd (Open [] l w)))) =
                 trace (snd (snd (Open [] l w))) @ map (\<lambda>(lvl, m). EvLog lvl m Stderr None) ms) \<and>
         goroutines (snd (snd (Open [] l w))) = goroutines w \<and>
         live_tasks (snd (snd (Open [] l w))) = [] \<and>
         concat (map w_watches (watchers (snd (snd (Open [] l w))))) =
           concat (map w_watches (watchers w)) \<and>
         phases (trace (snd (snd (Open [] l w)))) =
           phases (trace w) @ [ReopenEntered, ReopenLeft, ReopenEntered, ReopenLeft]"
proof -
  let ?l = "l\<lparr>filename := []\<rparr>" and ?w = "emit EvUnlock (emit EvLock w)"
  let ?R = "snd (snd (Reopen ?l ?w))"
  let ?w4 = "snd (make_chan (case watcherDone l of Some c \<Rightarrow> close_chan c ?R | None \<Rightarrow> ?R))"
  have W: "snd (snd (Open [] l w)) = fsWatch [] (length (chans w)) ?w4"
    by (rule Open_world)
  have r: "fst (Open [] l w) = None"
    by (simp add: Open_fst Reopen_result)
  have f: "fd (fst (snd (Open [] l w))) = None"
    by (simp add: Open_logger Reopen_empty)
  have o: "logrus_out (snd (snd (Open [] l w))) = Stderr"
    by (simp add: Open_files Reopen_empty prim_defs split: option.splits)
  have g: "goroutines (snd (snd (Open [] l w))) = goroutines w"
    by (simp add: W fsWatch_empty before_fsWatch_frame Reopen_frame)
  have c: "chans (snd (snd (Open [] l w))) =
     (case watcherDone l of Some c \<Rightarrow> (chans w)[c := True] | None \<Rightarrow> chans w) @ [False]"
    by (rule Open_chans)
  have lt: "live_tasks (snd (snd (Open [] l w))) = []"
    using cancelled_all [OF assms]
    by (simp add: live_tasks_def chan_closed_def g c split: option.splits)
  have wa: "concat (map w_watches (watchers (snd (snd (Open [] l w))))) =
           concat (map w_watches (watchers w))"
    by (simp add: W fsWatch_empty before_fsWatch_frame Reopen_frame)
  have "phases (trace ?w4) = phases (trace w) @ [ReopenEntered, ReopenLeft, ReopenEntered, ReopenLeft]"
    by (simp add: make_chan_def close_chan_def Let_def Reopen_phases split: option.splits)
  then have ph: "phases (trace (snd (snd (Open [] l w)))) =
           phases (trace w) @ [ReopenEntered, ReopenLeft, ReopenEntered, ReopenLeft]"
    by (simp add: W fsWatch_empty)
  from r f o g lt wa ph log_all_Stderr [OF o] show ?thesis
    by simp
qed

theorem Open_empty_filename_witness:
  "one_subscription \<lparr>filename = ''/log/a'', fd = Some 0, watcherDone = Some 0\<rparr>
     (boot_world\<lparr>chans := [False],
        goroutines := [\<lparr>t_watcher = 0, t_filename = ''/log/a'', t_quit = 0, t_err = None\<rparr>]\<rparr>) \<and>
   live_tasks (boot_world\<lparr>chans := [False],
        goroutines := [\<lparr>t_watcher = 0, t_filename = ''/log/a'', t_quit = 0, t_err = None\<rparr>]\<rparr>) =
     [\<lparr>t_watcher = 0, t_filename = ''/log/a'', t_quit = 0, t_err = None\<rparr>] \<and>
   live_tasks (snd (snd (Open [] \<lparr>filename = ''/log/a'', fd = Some 0, watcherDone = Some 0\<rparr>
     (boot_world\<lparr>chans := [False],
        goroutines := [\<lparr>t_watcher = 0, t_filename = ''/log/a'', t_quit = 0, t_err = None\<rparr>]\<rparr>)))) = [] \<and>
   logrus_out (snd (snd (Open [] \<lparr>filename = ''/log/a'', fd = Some 0, watcherDone = Some 0\<rparr>
     (boot_world\<lparr>chans := [False],
        goroutines := [\<lparr>t_watcher = 0, t_filename = ''/log/a'', t_quit = 0, t_err = None\<rparr>]\<rparr>)))) = Stderr"
proof -
  let ?l = "\<lparr>filename = ''/log/a'', fd = Some 0, watcherDone = Some 0\<rparr>"
  let ?w = "boot_world\<lparr>chans := [False],
        goroutines := [\<lparr>t_watcher = 0, t_filename = ''/log/a'', t_quit = 0, t_err = None\<rparr>]\<rparr>"
  have h: "one_subscription ?l ?w"
    by (simp add: one_subscription_def boot_world_def)
  have b: "live_tasks ?w = [\<lparr>t_watcher = 0, t_filename = ''/log/a'', t_quit = 0, t_err = None\<rparr>]"
    by (simp add: live_tasks_def chan_closed_def boot_world_def)
  from Open_empty_filename [OF h] h b show ?thesis
    by simp
qed

section \<open>The watcher goroutine\<close>

text \<open>
  C6. The watcher goroutine handles the events it receives one after the other, in the
  order received, and for each of them: it receives the event, enters \<open>Reopen\<close>, leaves
  \<open>Reopen\<close> (whether the open failed or not), and only then calls \<^verbatim>\<open>WatchFlags\<close> on its
  path; the next event is received after that.
\<close>

theorem watch_loop_order:
  "phases (trace (snd (watch_loop t (map RecvEvent evs) l w))) =
     phases (trace w) @
     concat (map (\<lambda>ev. [Received ev, ReopenEntered, ReopenLeft, Subscribes (t_filename t)]) evs)"
proof (induction evs arbitrary: l w)
  case Nil
  show ?case by simp
next
  case (Cons ev evs)
  let ?w0 = "emit (EvRecv (t_watcher t) ev) w"
  have "phases (trace (snd (on_event t l ?w0))) =
          phases (trace w) @ [Received ev, ReopenEntered, ReopenLeft, Subscribes (t_filename t)]"
    by (simp add: on_event_phases)
  with Cons.IH [of "fst (on_event t l ?w0)" "snd (on_event t l ?w0)"] show ?case
    by (simp add: case_prod_beta)
qed

text \<open>
  C7 fails on the code. The log is opened at \<^verbatim>\<open>/log/a\<close>; then the file can no longer be
  opened, and the watcher delivers a rename event. The goroutine's \<open>Reopen\<close> fails with
  \<^verbatim>\<open>permission denied\<close>, and the goroutine logs one line, at info level:
  \<open>ReopenByFsnotify\<close>. The \<^verbatim>\<open>Errorf\<close> of line 91 is guarded by the \<^verbatim>\<open>err\<close> of line 62, which
  is \<^verbatim>\<open>nil\<close> in the goroutine, not by the result of \<^verbatim>\<open>l.Reopen()\<close>, which line 86 drops.
  The hangup goroutine of the main package, in the same state, logs the failure at
  error level with the filename and the cause (last conjunct).
\<close>

theorem watcher_reopen_failure_not_logged:
  "(let (r1, l1, w1) = Open ''/log/a'' NewFileLogger boot_world;
        w1' = w1\<lparr>open_err := (\<lambda>p. Some ''permission denied'')\<rparr>;
        ev = FileEvent ''/log/a'' FSN_RENAME;
        (l2, w2) = watch_loop (goroutines w1 ! 0) [RecvEvent ev] l1 w1'
    in goroutines w1 = [\<lparr>t_watcher = 0, t_filename = ''/log/a'', t_quit = 0, t_err = None\<rparr>] \<and>
       fst (Reopen l1 w1') = Some ''permission denied'' \<and>
       drop (length (trace w1)) (trace w2) =
         [EvRecv 0 ev, EvLock,
          EvOpenFile ''/log/a'' {O_RDWR, O_CREATE, O_APPEND} mode_0644 (Inl ''permission denied''),
          EvUnlock,
          EvWatchFlags 0 ''/log/a'' {FSN_CREATE, FSN_DELETE, FSN_RENAME} None,
          EvRLock, EvRUnlock,
          EvLog InfoLevel (ReopenByFsnotify ''/log/a'') (FileOut 0) None] \<and>
       logged (drop (length (trace w1)) (trace (snd (hup_reopen l1 w1')))) =
         [(InfoLevel, HupReopen ''/log/a''),
          (ErrorLevel, ReopenFailed ''/log/a'' ''permission denied'')])"
  by (simp add: Open_def Reopen_def Reopen_swap_def fsWatch_def on_event_def hup_reopen_def
      prim_defs NewFileLogger_def boot_world_def Let_def writable_def)

section \<open>The hangup signal\<close>

text \<open>
  C8. On a hangup signal received by both goroutines, in either order of the two:
  \<open>Reopen\<close> is entered and left and \<^verbatim>\<open>app.ReloadConfig()\<close> is called, each once; the
  logger afterwards is the one \<open>Reopen\<close> alone gives; the reopen goroutine logs its line
  and, when \<open>Reopen\<close> failed, the failure at error level with the filename and the
  cause; the reload goroutine logs its line and then the failure of the reload at error
  level, or its success. Whether one fails has no effect on what the other does or
  logs.
\<close>

theorem SIGHUP_independent:
  "fst (on_SIGHUP reopen_first l w) = fst (snd (Reopen l w)) \<and>
   phases (trace (snd (on_SIGHUP reopen_first l w))) =
     phases (trace w) @
     (if reopen_first then [ReopenEntered, ReopenLeft, Reloads (reload_err w)]
      else [Reloads (reload_err w), ReopenEntered, ReopenLeft]) \<and>
   logged (trace (snd (on_SIGHUP reopen_first l w))) =
     logged (trace w) @
     (if reopen_first
      then ((InfoLevel, HupReopen (filename l)) #
            (case fst (Reopen l w) of
               Some e \<Rightarrow> [(ErrorLevel, ReopenFailed (filename l) e)]
             | None \<Rightarrow> [])) @
           ((InfoLevel, HupReload) #
            (case reload_err w of
               Some e \<Rightarrow> [(ErrorLevel, ReloadFailed e)]
             | None \<Rightarrow> [(InfoLevel, ReloadOk)]))
      else ((InfoLevel, HupReload) #
            (case reload_err w of
               Some e \<Rightarrow> [(ErrorLevel, ReloadFailed e)]
             | None \<Rightarrow> [(InfoLevel, ReloadOk)])) @
           ((InfoLevel, HupReopen (filename l)) #
            (case fst (Reopen l w) of
               Some e \<Rightarrow> [(ErrorLevel, ReopenFailed (filename l) e)]
             | None \<Rightarrow> [])))"
proof (cases reopen_first)
  case True
  then show ?thesis
    by (simp add: on_SIGHUP_def case_prod_beta hup_reopen_logger hup_reopen_trace
        hup_reload_trace hup_reopen_frame)
next
  case False
  have "fst (Reopen l (hup_reload w)) = fst (Reopen l w)"
    by (simp add: Reopen_result hup_reload_frame)
  moreover have "fst (snd (Reopen l (hup_reload w))) = fst (snd (Reopen l w))"
    by (simp add: Reopen_logger hup_reload_frame split: option.splits)
  ultimately show ?thesis using False
    by (simp add: on_SIGHUP_def hup_reopen_logger hup_reopen_trace hup_reload_trace)
qed

section \<open>No write to a closed handle\<close>

text \<open>
  C9. Start from a state in which logrus writes to the logger's handle and that handle
  is open (as after \<open>NewFileLogger\<close>, or after any \<open>Reopen\<close>). Then, for every sequence of
  actions of any number of goroutines, calls of \<open>Reopen\<close> executed statement by statement
  and interleaved in any way with each other, with log writes, with changes of the
  filename and with changes of the file system: no log write fails (none goes to a
  closed handle), and at the end logrus' output is still a writer that is not closed.
  A write is one action: logrus performs it under the mutex that \<^verbatim>\<open>logrus.SetOutput\<close>
  takes, so it goes as a whole to the handle set before it or to the one set after it.
\<close>

theorem no_write_to_closed_handle:
  assumes "consistent l w"
  shows "failed_writes (trace (the_world (exec acts (start l w)))) = failed_writes (trace w) \<and>
         writable (logrus_out (the_world (exec acts (start l w))))
           (the_world (exec acts (start l w)))"
proof -
  have "sys_inv (start l w)" using assms by (rule sys_inv_start)
  from exec_inv [OF this, of acts] sys_inv_writable [of "exec acts (start l w)"]
  show ?thesis by (simp add: start_def)
qed

theorem no_write_to_closed_handle_witness:
  "consistent \<lparr>filename = ''/log/a'', fd = Some 0, watcherDone = None\<rparr>
     (boot_world\<lparr>files := [\<lparr>f_name = ''/log/a'', f_flag = {O_RDWR, O_CREATE, O_APPEND},
                              f_perm = mode_0644, f_closed = False\<rparr>],
                  logrus_out := FileOut 0\<rparr>) \<and>
   failed_writes (trace (the_world (exec
       [Call 0, Call 1, Step 0, Step 1, Step 0, Write InfoLevel (Line ''a''),
        Step 0, Write InfoLevel (Line ''b''), Step 0, Write InfoLevel (Line ''c''),
        Step 0, Write InfoLevel (Line ''d''), Step 0, Step 1]
       (start \<lparr>filename = ''/log/a'', fd = Some 0, watcherDone = None\<rparr>
          (boot_world\<lparr>files := [\<lparr>f_name = ''/log/a'', f_flag = {O_RDWR, O_CREATE, O_APPEND},
                                   f_perm = mode_0644, f_closed = False\<rparr>],
                       logrus_out := FileOut 0\<rparr>))))) = [] \<and>
   filter (\<lambda>e. log_of e \<noteq> []) (trace (the_world (exec
       [Call 0, Call 1, Step 0, Step 1, Step 0, Write InfoLevel (Line ''a''),
        Step 0, Write InfoLevel (Line ''b''), Step 0, Write InfoLevel (Line ''c''),
        Step 0, Write InfoLevel (Line ''d''), Step 0, Step 1]
       (start \<lparr>filename = ''/log/a'', fd = Some 0, watcherDone = None\<rparr>
          (boot_world\<lparr>files := [\<lparr>f_name = ''/log/a'', f_flag = {O_RDWR, O_CREATE, O_APPEND},
                                   f_perm = mode_0644, f_closed = False\<rparr>],
                       logrus_out := FileOut 0\<rparr>))))) =
     [EvLog InfoLevel (Line ''a'') (FileOut 0) None,
      EvLog InfoLevel (Line ''b'') (FileOut 0) None,
      EvLog InfoLevel (Line ''c'') (FileOut 1) None,
      EvLog InfoLevel (Line ''d'') (FileOut 1) None]"
proof -
  let ?l = "\<lparr>filename = ''/log/a'', fd = Some 0, watcherDone = None\<rparr>"
  let ?w = "boot_world\<lparr>files := [\<lparr>f_name = ''/log/a'', f_flag = {O_RDWR, O_CREATE, O_APPEND},
                              f_perm = mode_0644, f_closed = False\<rparr>],
                  logrus_out := FileOut 0\<rparr>"
  have c: "consistent ?l ?w"
    by (simp add: consistent_def writable_def writer_of_def)
  have t: "trace ?w = []" by (simp add: boot_world_def)
  have f: "filter (\<lambda>e. log_of e \<noteq> []) (trace (the_world (exec
       [Call 0, Call 1, Step 0, Step 1, Step 0, Write InfoLevel (Line ''a''),
        Step 0, Write InfoLevel (Line ''b''), Step 0, Write InfoLevel (Line ''c''),
        Step 0, Write InfoLevel (Line ''d''), Step 0, Step 1] (start ?l ?w)))) =
     [EvLog InfoLevel (Line ''a'') (FileOut 0) None,
      EvLog InfoLevel (Line ''b'') (FileOut 0) None,
      EvLog InfoLevel (Line ''c'') (FileOut 1) None,
      EvLog InfoLevel (Line ''d'') (FileOut 1) None]"
    by (simp add: exec_def start_def boot_world_def prim_defs writable_def Let_def)
  from no_write_to_closed_handle [OF c] c t f show ?thesis
    by (simp add: failed_writes_def)
qed

section \<open>PrepareFile\<close>

text \<open>
  C10. For every owner, \<^verbatim>\<open>nil\<close> or not, \<open>PrepareFile\<close> on the empty filename returns
  \<^verbatim>\<open>nil\<close> and leaves the world as it was: nothing is added to the trace, so there is no
  \<^verbatim>\<open>MkdirAll\<close>, no \<^verbatim>\<open>OpenFile\<close>, no \<^verbatim>\<open>Chmod\<close> and no \<^verbatim>\<open>Chown\<close>.
\<close>

theorem PrepareFile_empty_filename:
  "PrepareFile Dir ParseInt [] owner w = (None, w)"
  by (simp add: PrepareFile_def)

end
